theory Spec2Isabelle
  imports Main "HOL-Library.Multiset" "HOL-Library.Sublist"
begin

section \<open>Data model\<close>

text \<open>
  The control tower keeps a priority queue of aircraft, the current operating state and
  two flags, all guarded by one mutex. Go's \<^verbatim>\<open>int\<close> is modelled as \<open>int\<close>: state codes
  and priorities are only compared, never computed with. Slice indices are \<open>nat\<close>.
\<close>

record Avion =
  avion_id :: int
  categoria :: string
  numPasajeros :: int
  prioridad :: int

type_synonym AvionHeap = "Avion list"

record Torre =
  msg :: string
  estadoActual :: int
  colaAviones :: AvionHeap
  procesar :: bool
  detenerProceso :: bool

text \<open>
  Lines written to standard output by the state machine, the dispatcher and the message
  reader, one constructor per print statement: \<open>Println_msg\<close> is the free text of
  \<^verbatim>\<open>leerMensajes\<close>, \<open>Printf_descripcion\<close> the description in parentheses,
  \<open>Println_mantiene\<close> the line for the codes 7 and 8 with the state that is kept,
  \<open>Printf_actualizado\<close> the line with the new state, \<open>Printf_agotada\<close> the line saying
  that a category is exhausted.
\<close>

datatype Salida =
    Println_msg string
  | Printf_descripcion string
  | Println_mantiene int
  | Printf_actualizado int
  | Printf_agotada string

section \<open>The heap interface of \<^verbatim>\<open>AvionHeap\<close>\<close>

definition Len :: "AvionHeap \<Rightarrow> nat" where
  "Len h = length h"

definition Less :: "AvionHeap \<Rightarrow> nat \<Rightarrow> nat \<Rightarrow> bool" where
  "Less h i j = (prioridad (h ! i) > prioridad (h ! j))"

definition Swap :: "AvionHeap \<Rightarrow> nat \<Rightarrow> nat \<Rightarrow> AvionHeap" where
  "Swap h i j = h[i := h ! j, j := h ! i]"

definition Push :: "AvionHeap \<Rightarrow> Avion \<Rightarrow> AvionHeap" where
  "Push h x = h @ [x]"

text \<open>\<^verbatim>\<open>Pop\<close> reads \<^verbatim>\<open>old[n-1]\<close>: on an empty slice Go panics, which is \<open>None\<close> here.\<close>

definition Pop :: "AvionHeap \<Rightarrow> (Avion \<times> AvionHeap) option" where
  "Pop h = (if h = [] then None else Some (last h, butlast h))"

section \<open>Go's \<^verbatim>\<open>container/heap\<close> over that interface\<close>

text \<open>
  \<^verbatim>\<open>up\<close> and \<open>down\<close> are the two loops of the standard library. In \<^verbatim>\<open>up\<close> the parent
  of \<open>j\<close> is \<^verbatim>\<open>(j - 1) / 2\<close>; for \<open>j = 0\<close> Go's division truncates \<open>-1 / 2\<close> to \<open>0\<close>, and
  so does the subtraction on \<open>nat\<close>. The overflow test \<^verbatim>\<open>j1 < 0\<close> of \<^verbatim>\<open>down\<close> cannot
  fire for a slice that fits in memory and is left out.
\<close>

function up :: "AvionHeap \<Rightarrow> nat \<Rightarrow> AvionHeap" where
  "up h j =
     (let i = (j - 1) div 2 in
      if i = j \<or> \<not> Less h j i then h
      else up (Swap h i j) i)"
  by pat_completeness auto
termination
  by (relation "measure (\<lambda>(h, j). j)") auto

function down :: "AvionHeap \<Rightarrow> nat \<Rightarrow> nat \<Rightarrow> AvionHeap" where
  "down h i n =
     (let j1 = 2 * i + 1 in
      if j1 \<ge> n then h
      else
        let j = (if j1 + 1 < n \<and> Less h (j1 + 1) j1 then j1 + 1 else j1) in
        if \<not> Less h j i then h
        else down (Swap h i j) j n)"
  by pat_completeness auto
termination
  by (relation "measure (\<lambda>(h, i, n). n - i)") (auto split: if_splits)

declare up.simps [simp del]
declare down.simps [simp del]

text \<open>\<^verbatim>\<open>heap.Init\<close> runs \<^verbatim>\<open>down(h, i, n)\<close> for \<open>i = n/2 - 1\<close> down to \<open>0\<close>.\<close>

definition heap_Init :: "AvionHeap \<Rightarrow> AvionHeap" where
  "heap_Init h = fold (\<lambda>i h'. down h' i (Len h)) (rev [0 ..< Len h div 2]) h"

definition heap_Push :: "AvionHeap \<Rightarrow> Avion \<Rightarrow> AvionHeap" where
  "heap_Push h x = (let h1 = Push h x in up h1 (Len h1 - 1))"

text \<open>
  \<^verbatim>\<open>heap.Pop\<close> computes \<^verbatim>\<open>n := h.Len() - 1\<close> and swaps indices \<open>0\<close> and \<open>n\<close>; on an empty heap
  the swap indexes at \<open>-1\<close> and panics.
\<close>

definition heap_Pop :: "AvionHeap \<Rightarrow> (Avion \<times> AvionHeap) option" where
  "heap_Pop h =
     (if Len h = 0 then None
      else
        let n = Len h - 1;
            h1 = Swap h 0 n;
            h2 = down h1 0 n
        in Pop h2)"

section \<open>State machine\<close>

definition calcularPrioridad :: "int \<Rightarrow> Avion \<Rightarrow> int" where
  "calcularPrioridad estado avion =
     (if estado = 1 then (if categoria avion = ''A'' then 1 else 0)
      else if estado = 2 then (if categoria avion = ''B'' then 1 else 0)
      else if estado = 3 then (if categoria avion = ''C'' then 1 else 0)
      else if estado = 4 then (if categoria avion = ''A'' then 2 else 0)
      else if estado = 5 then (if categoria avion = ''B'' then 2 else 0)
      else if estado = 6 then (if categoria avion = ''C'' then 2 else 0)
      else 0)"

definition esCategoriaValida :: "int \<Rightarrow> Avion \<Rightarrow> bool" where
  "esCategoriaValida estado avion =
     (if estado = 1 then categoria avion = ''A''
      else if estado = 2 then categoria avion = ''B''
      else if estado = 3 then categoria avion = ''C''
      else True)"

definition categoriaEstado :: "int \<Rightarrow> string" where
  "categoriaEstado estado =
     (if estado = 1 then ''A'' else if estado = 2 then ''B''
      else if estado = 3 then ''C'' else '''')"

lemma length_Swap [simp]: "length (Swap h i j) = length h"
  by (simp add: Swap_def)

lemma length_down [simp]: "length (down h i n) = length h"
proof (induction h i n rule: down.induct)
  case (1 h i n)
  show ?case
    by (subst down.simps) (simp add: Let_def 1)
qed

lemma heap_Pop_length:
  "heap_Pop h = Some (x, h') \<Longrightarrow> length h' < length h"
  by (auto simp: heap_Pop_def Pop_def Len_def Let_def split: if_splits)

text \<open>
  The loop of \<^verbatim>\<open>reordenarCola\<close>: pop while the old queue is not empty, recompute the
  priority against the current state, push onto the new queue. The first argument is the
  global \<^verbatim>\<open>estadoActual\<close> that \<^verbatim>\<open>calcularPrioridad\<close> reads.
\<close>

function reordenarCola_loop :: "int \<Rightarrow> AvionHeap \<Rightarrow> AvionHeap \<Rightarrow> AvionHeap option" where
  "reordenarCola_loop estado cola nuevaCola =
     (if Len cola > 0 then
        (case heap_Pop cola of
           None \<Rightarrow> None
         | Some (avion, cola') \<Rightarrow>
             reordenarCola_loop estado cola'
               (heap_Push nuevaCola (avion\<lparr>prioridad := calcularPrioridad estado avion\<rparr>)))
      else Some nuevaCola)"
  by pat_completeness auto
termination
  by (relation "measure (\<lambda>(e, cola, nueva). length cola)") (auto dest: heap_Pop_length)

declare reordenarCola_loop.simps [simp del]

definition reordenarCola :: "Torre \<Rightarrow> Torre option" where
  "reordenarCola t =
     (case reordenarCola_loop (estadoActual t) (colaAviones t) [] of
        None \<Rightarrow> None
      | Some nuevaCola \<Rightarrow> Some (t\<lparr>colaAviones := nuevaCola\<rparr>))"

definition actualizarEstado :: "int \<Rightarrow> Torre \<Rightarrow> (Salida list \<times> Torre) option" where
  "actualizarEstado estado t =
     (if estado = 7 \<or> estado = 8 then Some ([Println_mantiene (estadoActual t)], t)
      else
        let t1 = t\<lparr>estadoActual := estado,
                   procesar := (estado \<ge> 1 \<and> estado \<le> 6),
                   detenerProceso := False\<rparr>;
            out = [Printf_actualizado (estadoActual t1)]
        in if procesar t1 then
             (case reordenarCola t1 of None \<Rightarrow> None | Some t2 \<Rightarrow> Some (out, t2))
           else Some (out, t1))"

section \<open>Start-up\<close>

text \<open>
  \<^verbatim>\<open>rand.Intn(n)\<close> returns a value from 0 up to but excluding \<open>n\<close>: the raw draw of the
  generator reduced modulo \<open>n\<close>. The random source is a parameter, so that every value of
  the range occurs: \<open>rnd k\<close> is the \<open>k\<close>-th raw draw of \<^verbatim>\<open>init()\<close>.
\<close>

definition rand_Intn :: "int \<Rightarrow> nat \<Rightarrow> int" where
  "rand_Intn n r = int r mod n"

definition init_vuelta :: "(nat \<Rightarrow> nat) \<Rightarrow> AvionHeap \<Rightarrow> nat \<Rightarrow> AvionHeap" where
  "init_vuelta rnd h i =
     (let h1 = heap_Push h \<lparr>avion_id = int i, categoria = ''A'',
                 numPasajeros = rand_Intn 50 (rnd (3 * (i - 1))) + 101, prioridad = 0\<rparr>;
          h2 = heap_Push h1 \<lparr>avion_id = int i + 10, categoria = ''B'',
                 numPasajeros = rand_Intn 51 (rnd (3 * (i - 1) + 1)) + 50, prioridad = 0\<rparr>
      in heap_Push h2 \<lparr>avion_id = int i + 20, categoria = ''C'',
                 numPasajeros = rand_Intn 50 (rnd (3 * (i - 1) + 2)) + 1, prioridad = 0\<rparr>)"

text \<open>
  The globals after \<^verbatim>\<open>init()\<close>: \<^verbatim>\<open>estadoActual\<close> and \<^verbatim>\<open>msg\<close> keep Go's zero values.
\<close>

definition init :: "(nat \<Rightarrow> nat) \<Rightarrow> Torre" where
  "init rnd =
     \<lparr>msg = [], estadoActual = 0,
      colaAviones = fold (\<lambda>i h. init_vuelta rnd h i) [1 ..< 11] (heap_Init []),
      procesar = False, detenerProceso = False\<rparr>"

section \<open>Dispatcher\<close>

text \<open>
  One pass of the loop of \<^verbatim>\<open>procesarCola\<close> between \<^verbatim>\<open>mu.Lock()\<close> and \<^verbatim>\<open>mu.Unlock()\<close>.
  \<open>Espera\<close> is the branch that sleeps a second and retries, \<open>Agotada\<close> the branch that
  puts the aircraft back, \<open>Despacha\<close> the branch that goes on to \<^verbatim>\<open>usarPista(avion)\<close>.
\<close>

datatype Resultado = Espera | Agotada Avion | Despacha Avion

definition procesarCola_iter :: "Torre \<Rightarrow> (Salida list \<times> Resultado \<times> Torre) option" where
  "procesarCola_iter t =
     (if detenerProceso t then Some ([], Espera, t)
      else if \<not> procesar t \<or> Len (colaAviones t) = 0 then Some ([], Espera, t)
      else
        (case heap_Pop (colaAviones t) of
           None \<Rightarrow> None
         | Some (avion, cola') \<Rightarrow>
             if estadoActual t \<ge> 1 \<and> estadoActual t \<le> 3
                \<and> \<not> esCategoriaValida (estadoActual t) avion
             then Some ([Printf_agotada (categoriaEstado (estadoActual t))], Agotada avion,
                        t\<lparr>colaAviones := heap_Push cola' avion, detenerProceso := True\<rparr>)
             else Some ([], Despacha avion, t\<lparr>colaAviones := cola'\<rparr>)))"

text \<open>
  The two activities that take the mutex: a state update and a dispatcher pass. A run of
  the system is a sequence of them; \<open>None\<close> is a panic.
\<close>

datatype Accion = Estado int | Iteracion

datatype Evento = Cambio int | Ciclo Resultado

fun paso :: "Accion \<Rightarrow> Torre \<Rightarrow> (Evento \<times> Torre) option" where
  "paso (Estado e) t =
     (case actualizarEstado e t of None \<Rightarrow> None | Some (out, t') \<Rightarrow> Some (Cambio e, t'))"
| "paso Iteracion t =
     (case procesarCola_iter t of None \<Rightarrow> None | Some (out, r, t') \<Rightarrow> Some (Ciclo r, t'))"

fun ejecutar :: "Accion list \<Rightarrow> Torre \<Rightarrow> (Evento list \<times> Torre) option" where
  "ejecutar [] t = Some ([], t)"
| "ejecutar (a # as) t =
     (case paso a t of
        None \<Rightarrow> None
      | Some (ev, t') \<Rightarrow>
          (case ejecutar as t' of None \<Rightarrow> None | Some (evs, t'') \<Rightarrow> Some (ev # evs, t'')))"

text \<open>The aircraft a trace took off the queue, and those it sent to a runway.\<close>

fun sacado :: "Evento \<Rightarrow> Avion list" where
  "sacado (Ciclo (Agotada a)) = [a]"
| "sacado (Ciclo (Despacha a)) = [a]"
| "sacado _ = []"

fun despachado :: "Evento \<Rightarrow> Avion list" where
  "despachado (Ciclo (Despacha a)) = [a]"
| "despachado _ = []"

definition sacados :: "Evento list \<Rightarrow> Avion list" where
  "sacados evs = concat (map sacado evs)"

definition despachados :: "Evento list \<Rightarrow> Avion list" where
  "despachados evs = concat (map despachado evs)"

section \<open>Incoming messages\<close>

text \<open>
  A Go string is a sequence of bytes, here a \<open>string\<close>. \<^verbatim>\<open>strings.TrimSpace\<close> removes
  every leading and every trailing white-space rune of \<^verbatim>\<open>unicode.IsSpace\<close>. Each such
  rune has exactly one valid UTF-8 encoding, listed in \<open>espacios\<close>: the six ASCII
  characters, U+0085, U+00A0, U+1680, U+2000 to U+200A, U+2028, U+2029, U+202F, U+205F and
  U+3000. A malformed or truncated sequence decodes to the replacement rune, which is not
  white space, so trimming stops there.
\<close>

definition espacios :: "string list" where
  "espacios =
     [[CHR 0x09], [CHR 0x0A], [CHR 0x0B], [CHR 0x0C], [CHR 0x0D], [CHR 0x20],
      [CHR 0xC2, CHR 0x85], [CHR 0xC2, CHR 0xA0],
      [CHR 0xE1, CHR 0x9A, CHR 0x80],
      [CHR 0xE2, CHR 0x80, CHR 0x80], [CHR 0xE2, CHR 0x80, CHR 0x81],
      [CHR 0xE2, CHR 0x80, CHR 0x82], [CHR 0xE2, CHR 0x80, CHR 0x83],
      [CHR 0xE2, CHR 0x80, CHR 0x84], [CHR 0xE2, CHR 0x80, CHR 0x85],
      [CHR 0xE2, CHR 0x80, CHR 0x86], [CHR 0xE2, CHR 0x80, CHR 0x87],
      [CHR 0xE2, CHR 0x80, CHR 0x88], [CHR 0xE2, CHR 0x80, CHR 0x89],
      [CHR 0xE2, CHR 0x80, CHR 0x8A],
      [CHR 0xE2, CHR 0x80, CHR 0xA8], [CHR 0xE2, CHR 0x80, CHR 0xA9],
      [CHR 0xE2, CHR 0x80, CHR 0xAF], [CHR 0xE2, CHR 0x81, CHR 0x9F],
      [CHR 0xE3, CHR 0x80, CHR 0x80]]"

lemma espacios_no_vacio: "p \<in> set espacios \<Longrightarrow> p \<noteq> []"
  by (auto simp: espacios_def)

lemma find_espacios:
  "find Q espacios = Some p \<Longrightarrow> p \<noteq> [] \<and> Q p"
  by (auto simp: find_Some_iff espacios_no_vacio)

function trimIzquierda :: "string \<Rightarrow> string" where
  "trimIzquierda s =
     (case find (\<lambda>p. prefix p s) espacios of
        None \<Rightarrow> s
      | Some p \<Rightarrow> trimIzquierda (drop (length p) s))"
  by pat_completeness auto
termination
proof (relation "measure length")
  fix s p assume "find (\<lambda>p. prefix p s) espacios = Some p"
  then have "p \<noteq> []" "prefix p s" using find_espacios[of "\<lambda>p. prefix p s" p] by auto
  then show "(drop (length p) s, s) \<in> measure length"
    by (cases s) (auto simp: prefix_def)
qed simp

function trimDerecha :: "string \<Rightarrow> string" where
  "trimDerecha s =
     (case find (\<lambda>p. suffix p s) espacios of
        None \<Rightarrow> s
      | Some p \<Rightarrow> trimDerecha (take (length s - length p) s))"
  by pat_completeness auto
termination
proof (relation "measure length")
  fix s p assume "find (\<lambda>p. suffix p s) espacios = Some p"
  then have "p \<noteq> []" "suffix p s" using find_espacios[of "\<lambda>p. suffix p s" p] by auto
  then show "(take (length s - length p) s, s) \<in> measure length"
    by (cases s) (auto simp: suffix_def)
qed simp

declare trimIzquierda.simps [simp del]
declare trimDerecha.simps [simp del]

definition TrimSpace :: "string \<Rightarrow> string" where
  "TrimSpace s = trimDerecha (trimIzquierda s)"

text \<open>
  \<^verbatim>\<open>strconv.Atoi\<close> on a 64-bit platform: an optional sign, then one or more decimal
  digits and nothing else; a value outside the range of \<^verbatim>\<open>int\<close> is an error as well.
  \<open>None\<close> is the case \<^verbatim>\<open>err != nil\<close>.
\<close>

definition esDigito :: "char \<Rightarrow> bool" where
  "esDigito c = (48 \<le> (of_char c :: int) \<and> (of_char c :: int) \<le> 57)"

definition valorDigitos :: "string \<Rightarrow> int" where
  "valorDigitos ds = foldl (\<lambda>n c. n * 10 + (of_char c - 48)) 0 ds"

definition Atoi :: "string \<Rightarrow> int option" where
  "Atoi s =
     (let neg = (s \<noteq> [] \<and> hd s = CHR ''-'');
          ds = (if s \<noteq> [] \<and> (hd s = CHR ''-'' \<or> hd s = CHR ''+'') then tl s else s)
      in if ds = [] \<or> \<not> list_all esDigito ds then None
         else
           let v = valorDigitos ds in
           if neg then (if v > 2 ^ 63 then None else Some (- v))
           else (if v \<ge> 2 ^ 63 then None else Some v))"

text \<open>The description table, its strings as the UTF-8 bytes of the source text.\<close>

definition descripciones :: "int \<rightharpoonup> string" where
  "descripciones =
     [0 \<mapsto> ''Aeropuerto inactivo'',
      1 \<mapsto> ''Solo categor'' @ [CHR 0xC3, CHR 0xAD] @ ''a A'',
      2 \<mapsto> ''Solo categor'' @ [CHR 0xC3, CHR 0xAD] @ ''a B'',
      3 \<mapsto> ''Solo categor'' @ [CHR 0xC3, CHR 0xAD] @ ''a C'',
      4 \<mapsto> ''Prioridad categor'' @ [CHR 0xC3, CHR 0xAD] @ ''a A'',
      5 \<mapsto> ''Prioridad categor'' @ [CHR 0xC3, CHR 0xAD] @ ''a B'',
      6 \<mapsto> ''Prioridad categor'' @ [CHR 0xC3, CHR 0xAD] @ ''a C'',
      9 \<mapsto> ''Aeropuerto cerrado temporalmente'']"

definition descripcionEstado :: "int \<Rightarrow> Salida list" where
  "descripcionEstado estado =
     (case descripciones estado of
        Some desc \<Rightarrow> [Printf_descripcion desc]
      | None \<Rightarrow> [])"

text \<open>
  What \<^verbatim>\<open>leerMensajes\<close> does with the bytes \<^verbatim>\<open>buf[:n]\<close> of one successful read.
\<close>

definition leerMensajes_lectura :: "string \<Rightarrow> Torre \<Rightarrow> (Salida list \<times> Torre) option" where
  "leerMensajes_lectura raw t =
     (if length raw > 0 then
        let t1 = t\<lparr>msg := TrimSpace raw\<rparr> in
        (case Atoi (msg t1) of
           Some estado \<Rightarrow>
             (case actualizarEstado estado t1 of
                None \<Rightarrow> None
              | Some (out, t2) \<Rightarrow> Some (out @ descripcionEstado estado, t2))
         | None \<Rightarrow> Some ([Println_msg (msg t1)], t1))
      else Some ([], t))"

section \<open>Runways\<close>

text \<open>
  \<^verbatim>\<open>pistasDisponibles\<close> is a channel of capacity 3 used as a semaphore; only the number of
  buffered tokens matters. Each dispatcher goroutine is either outside \<^verbatim>\<open>usarPista\<close> or
  between its receive and its send. A receive is enabled when a token is buffered, a send
  when the buffer is not full; an action that is not enabled blocks, which is \<open>None\<close>.
\<close>

datatype Hilo = Fuera | EnPista

record Pistas =
  pistasDisponibles :: nat
  hilos :: "Hilo list"

definition capacidad :: nat where
  "capacidad = 3"

definition recibir :: "Pistas \<Rightarrow> Pistas option" where
  "recibir p =
     (if pistasDisponibles p > 0 then Some (p\<lparr>pistasDisponibles := pistasDisponibles p - 1\<rparr>)
      else None)"

definition enviar :: "Pistas \<Rightarrow> Pistas option" where
  "enviar p =
     (if pistasDisponibles p < capacidad
      then Some (p\<lparr>pistasDisponibles := pistasDisponibles p + 1\<rparr>)
      else None)"

text \<open>\<^verbatim>\<open>init()\<close> sends three tokens into the empty channel.\<close>

definition init_pistas :: "Pistas option" where
  "init_pistas =
     Option.bind (Option.bind (enviar \<lparr>pistasDisponibles = 0, hilos = []\<rparr>) enviar) enviar"

datatype AccionPista = Lanza | Reserva nat | Libera nat

text \<open>
  \<open>Lanza\<close> is \<^verbatim>\<open>go procesarCola()\<close>; \<open>Reserva i\<close> is the receive of \<^verbatim>\<open>usarPista\<close> in
  goroutine \<open>i\<close>, \<open>Libera i\<close> its send.
\<close>

definition paso_pista :: "AccionPista \<Rightarrow> Pistas \<Rightarrow> Pistas option" where
  "paso_pista a p =
     (case a of
        Lanza \<Rightarrow> Some (p\<lparr>hilos := hilos p @ [Fuera]\<rparr>)
      | Reserva i \<Rightarrow>
          if i < length (hilos p) \<and> hilos p ! i = Fuera then
            (case recibir p of
               None \<Rightarrow> None
             | Some p' \<Rightarrow> Some (p'\<lparr>hilos := (hilos p')[i := EnPista]\<rparr>))
          else None
      | Libera i \<Rightarrow>
          if i < length (hilos p) \<and> hilos p ! i = EnPista then
            (case enviar p of
               None \<Rightarrow> None
             | Some p' \<Rightarrow> Some (p'\<lparr>hilos := (hilos p')[i := Fuera]\<rparr>))
          else None)"

fun ejecutar_pistas :: "AccionPista list \<Rightarrow> Pistas \<Rightarrow> Pistas option" where
  "ejecutar_pistas [] p = Some p"
| "ejecutar_pistas (a # as) p =
     (case paso_pista a p of None \<Rightarrow> None | Some p' \<Rightarrow> ejecutar_pistas as p')"

definition ocupadas :: "Pistas \<Rightarrow> nat" where
  "ocupadas p = length (filter (\<lambda>h. h = EnPista) (hilos p))"

text \<open>The seconds \<^verbatim>\<open>usarPista\<close> sleeps: \<^verbatim>\<open>rand.Intn(4)\<close>, for the raw draw \<open>r\<close>.\<close>

definition usarPista_duracion :: "nat \<Rightarrow> int" where
  "usarPista_duracion r = rand_Intn 4 r"

section \<open>Heap order\<close>

text \<open>
  \<open>padre j\<close> is the parent index that \<^verbatim>\<open>up\<close> computes, \<open>hijo h i n\<close> the child that
  \<^verbatim>\<open>down\<close> selects. \<open>is_heap\<close> says that no element has a larger priority than its parent.
  \<open>casi_down\<close> and \<open>casi_up\<close> are the loop invariants of \<^verbatim>\<open>down\<close> and \<^verbatim>\<open>up\<close>: heap order
  everywhere except around the index being moved.
\<close>

definition padre :: "nat \<Rightarrow> nat" where
  "padre j = (j - 1) div 2"

definition hijo :: "AvionHeap \<Rightarrow> nat \<Rightarrow> nat \<Rightarrow> nat" where
  "hijo h i n =
     (if 2 * i + 1 + 1 < n \<and> Less h (2 * i + 1 + 1) (2 * i + 1) then 2 * i + 1 + 1
      else 2 * i + 1)"

definition heap_hasta :: "AvionHeap \<Rightarrow> nat \<Rightarrow> bool" where
  "heap_hasta h n = (\<forall>j<n. prioridad (h ! j) \<le> prioridad (h ! padre j))"

definition is_heap :: "AvionHeap \<Rightarrow> bool" where
  "is_heap h = heap_hasta h (length h)"

definition casi_down :: "AvionHeap \<Rightarrow> nat \<Rightarrow> nat \<Rightarrow> bool" where
  "casi_down h n i =
     ((\<forall>j<n. padre j \<noteq> i \<longrightarrow> prioridad (h ! j) \<le> prioridad (h ! padre j)) \<and>
      (\<forall>j<n. padre j = i \<and> 0 < i \<longrightarrow> prioridad (h ! j) \<le> prioridad (h ! padre i)))"

definition casi_up :: "AvionHeap \<Rightarrow> nat \<Rightarrow> bool" where
  "casi_up h j =
     ((\<forall>k<length h. k \<noteq> j \<longrightarrow> prioridad (h ! k) \<le> prioridad (h ! padre k)) \<and>
      (\<forall>k<length h. padre k = j \<and> k \<noteq> j \<longrightarrow> prioridad (h ! k) \<le> prioridad (h ! padre j)))"

section \<open>Auxiliary definitions\<close>

text \<open>
  The priority table of the specification: the category that matches the state gets
  priority 1 in the states 1, 2, 3 and priority 2 in the states 4, 5, 6; everything else
  gets 0. It is compared with \<open>calcularPrioridad\<close> below.
\<close>

definition calcPriority :: "Avion \<Rightarrow> int \<Rightarrow> int" where
  "calcPriority a s =
     (if (s = 1 \<and> categoria a = ''A'') \<or> (s = 2 \<and> categoria a = ''B'')
         \<or> (s = 3 \<and> categoria a = ''C'') then 1
      else if (s = 4 \<and> categoria a = ''A'') \<or> (s = 5 \<and> categoria a = ''B'')
         \<or> (s = 6 \<and> categoria a = ''C'') then 2
      else 0)"

text \<open>The update that \<^verbatim>\<open>reordenarCola\<close> applies to each aircraft it moves.\<close>

definition reprioriza :: "int \<Rightarrow> Avion \<Rightarrow> Avion" where
  "reprioriza e a = a\<lparr>prioridad := calcularPrioridad e a\<rparr>"

text \<open>The codes that have a description.\<close>

definition tabla_descripciones :: "int set" where
  "tabla_descripciones = {0, 1, 2, 3, 4, 5, 6, 9}"

text \<open>
  Go's table \<^verbatim>\<open>asciiSpace\<close>, and the bytes that begin and that end the encodings listed in
  \<open>espacios\<close>.
\<close>

definition asciiSpace :: "char \<Rightarrow> bool" where
  "asciiSpace c =
     (c = CHR 0x09 \<or> c = CHR 0x0A \<or> c = CHR 0x0B \<or> c = CHR 0x0C \<or> c = CHR 0x0D
      \<or> c = CHR 0x20)"

definition inicioDeEspacio :: "char \<Rightarrow> bool" where
  "inicioDeEspacio c =
     (asciiSpace c \<or> c = CHR 0xC2 \<or> c = CHR 0xE1 \<or> c = CHR 0xE2 \<or> c = CHR 0xE3)"

definition finDeEspacio :: "char \<Rightarrow> bool" where
  "finDeEspacio c =
     (asciiSpace c \<or> c \<in> {CHR 0xA0, CHR 0x80, CHR 0x81, CHR 0x82, CHR 0x83,
        CHR 0x84, CHR 0x85, CHR 0x86, CHR 0x87, CHR 0x88, CHR 0x89, CHR 0x8A, CHR 0xA8,
        CHR 0xA9, CHR 0xAF, CHR 0x9F})"

text \<open>A small tower used to run the operations on concrete data.\<close>

definition avion_ejemplo :: "int \<Rightarrow> string \<Rightarrow> int \<Rightarrow> Avion" where
  "avion_ejemplo i c p = \<lparr>avion_id = i, categoria = c, numPasajeros = 100, prioridad = p\<rparr>"

definition torre_ejemplo :: "Torre" where
  "torre_ejemplo =
     \<lparr>msg = [], estadoActual = 0,
      colaAviones = [avion_ejemplo 1 ''B'' 0, avion_ejemplo 2 ''A'' 0, avion_ejemplo 3 ''C'' 0],
      procesar = False, detenerProceso = False\<rparr>"

text \<open>A tower in state 1 whose queue holds no aircraft of category A.\<close>

definition torre_estado_1 :: "Torre" where
  "torre_estado_1 =
     \<lparr>msg = ''1'', estadoActual = 1,
      colaAviones = [avion_ejemplo 11 ''B'' 0, avion_ejemplo 21 ''C'' 0, avion_ejemplo 12 ''B'' 0],
      procesar = True, detenerProceso = False\<rparr>"

text \<open>The runways after start-up, and a schedule of four goroutines.\<close>

definition pistas_inicial :: "Pistas" where
  "pistas_inicial = \<lparr>pistasDisponibles = 3, hilos = []\<rparr>"

definition acciones_ejemplo :: "AccionPista list" where
  "acciones_ejemplo =
     [Lanza, Lanza, Lanza, Lanza, Reserva 0, Reserva 1, Reserva 2, Libera 1, Reserva 3]"

text \<open>
  The invariant of the tower: the queue is in heap order, \<^verbatim>\<open>procesar\<close> is set exactly in
  the states 1 to 6, and while it is set every queued aircraft carries the priority of the
  current state.
\<close>

definition coherente :: "Torre \<Rightarrow> bool" where
  "coherente t =
     (is_heap (colaAviones t) \<and>
      procesar t = (1 \<le> estadoActual t \<and> estadoActual t \<le> 6) \<and>
      (procesar t \<longrightarrow>
         (\<forall>a \<in> set (colaAviones t). prioridad a = calcularPrioridad (estadoActual t) a)))"

section \<open>Properties of the heap operations\<close>

lemma mset_Swap: "i < length h \<Longrightarrow> j < length h \<Longrightarrow> mset (Swap h i j) = mset h"
  by (simp add: Swap_def mset_swap)

lemma length_up [simp]: "length (up h j) = length h"
proof (induction h j rule: up.induct)
  case (1 h j)
  show ?case
    by (subst up.simps) (simp add: Let_def 1)
qed

lemma mset_up: "j < length h \<Longrightarrow> mset (up h j) = mset h"
proof (induction h j rule: up.induct)
  case (1 h j)
  show ?case
  proof (cases "(j - 1) div 2 = j \<or> \<not> Less h j ((j - 1) div 2)")
    case True
    then show ?thesis by (subst up.simps) (simp add: Let_def)
  next
    case False
    have lt: "(j - 1) div 2 < length h" using 1(2) by arith
    have "mset (up (Swap h ((j - 1) div 2) j) ((j - 1) div 2)) = mset (Swap h ((j - 1) div 2) j)"
      using 1(1)[OF refl False] lt by simp
    with False lt 1(2) show ?thesis
      by (subst up.simps) (simp add: Let_def mset_Swap)
  qed
qed

lemma down_unfold:
  "down h i n =
     (if 2 * i + 1 \<ge> n then h
      else if \<not> Less h (hijo h i n) i then h
      else down (Swap h i (hijo h i n)) (hijo h i n) n)"
  by (subst down.simps) (simp add: Let_def hijo_def)

lemma hijo_bounds: "2 * i + 1 < n \<Longrightarrow> i < hijo h i n \<and> hijo h i n < n"
  by (simp add: hijo_def)

lemma down_induct [case_names paso]:
  assumes "\<And>h i n. (2 * i + 1 < n \<Longrightarrow> Less h (hijo h i n) i \<Longrightarrow>
              P (Swap h i (hijo h i n)) (hijo h i n) n) \<Longrightarrow> P h i n"
  shows "P h i n"
proof (induction h i n rule: down.induct)
  case (1 h i n)
  show ?case
  proof (rule assms)
    assume a: "2 * i + 1 < n" "Less h (hijo h i n) i"
    show "P (Swap h i (hijo h i n)) (hijo h i n) n"
      unfolding hijo_def
      by (rule 1[OF refl _ refl]) (use a in \<open>simp_all add: hijo_def\<close>)
  qed
qed

lemma mset_down: "n \<le> length h \<Longrightarrow> mset (down h i n) = mset h"
proof (induction h i n rule: down_induct)
  case (paso h i n)
  show ?case
  proof (cases "2 * i + 1 < n \<and> Less h (hijo h i n) i")
    case False
    then show ?thesis by (subst down_unfold) auto
  next
    case True
    from hijo_bounds[of i n h] True have b: "i < hijo h i n" "hijo h i n < n" by auto
    have "mset (down (Swap h i (hijo h i n)) (hijo h i n) n) = mset (Swap h i (hijo h i n))"
      using paso True by simp
    then show ?thesis using True b paso(2)
      by (subst down_unfold) (simp add: mset_Swap)
  qed
qed

lemma down_nth: "n \<le> k \<Longrightarrow> n \<le> length h \<Longrightarrow> down h i n ! k = h ! k"
proof (induction h i n rule: down_induct)
  case (paso h i n)
  show ?case
  proof (cases "2 * i + 1 < n \<and> Less h (hijo h i n) i")
    case False
    then show ?thesis by (subst down_unfold) auto
  next
    case True
    from hijo_bounds[of i n h] True have b: "i < hijo h i n" "hijo h i n < n" by auto
    have "down (Swap h i (hijo h i n)) (hijo h i n) n ! k = Swap h i (hijo h i n) ! k"
      using paso True by simp
    then show ?thesis using True b paso(2,3)
      by (subst down_unfold) (simp add: Swap_def)
  qed
qed


lemma padre_eq: "padre j = i \<longleftrightarrow> (j = 0 \<and> i = 0) \<or> j = 2 * i + 1 \<or> j = 2 * i + 2"
  unfolding padre_def by arith

lemma padre_le: "padre j \<le> j"
  unfolding padre_def by arith

lemma padre_lt: "0 < j \<Longrightarrow> padre j < j"
  unfolding padre_def by arith

lemma hijo_cases: "hijo h i n = 2 * i + 1 \<or> hijo h i n = 2 * i + 2"
  by (simp add: hijo_def)

lemma hijo_max:
  "2 * i + 1 < n \<Longrightarrow> j < n \<Longrightarrow> j = 2 * i + 1 \<or> j = 2 * i + 2 \<Longrightarrow>
   prioridad (h ! j) \<le> prioridad (h ! hijo h i n)"
  by (auto simp: hijo_def Less_def)

lemma Swap_nth:
  "i < length h \<Longrightarrow> j < length h \<Longrightarrow>
   Swap h i j ! k = (if k = j then h ! i else if k = i then h ! j else h ! k)"
  by (auto simp: Swap_def)

lemma down_heap:
  "casi_down h n i \<Longrightarrow> n \<le> length h \<Longrightarrow> heap_hasta (down h i n) n"
proof (induction h i n rule: down_induct)
  case (paso h i n)
  show ?case
  proof (cases "2 * i + 1 < n")
    case False
    then have "down h i n = h" by (subst down_unfold) simp
    moreover have "heap_hasta h n"
      unfolding heap_hasta_def
    proof (intro allI impI)
      fix j assume "j < n"
      show "prioridad (h ! j) \<le> prioridad (h ! padre j)"
      proof (cases "padre j = i")
        case True
        with False \<open>j < n\<close> have "j = 0" by (auto simp: padre_eq)
        then show ?thesis by (simp add: padre_def)
      next
        case False
        with paso(2) \<open>j < n\<close> show ?thesis by (simp add: casi_down_def)
      qed
    qed
    ultimately show ?thesis by simp
  next
    case c1: True
    let ?j = "hijo h i n"
    from hijo_bounds[OF c1] have b: "i < ?j" "?j < n" by auto
    show ?thesis
    proof (cases "Less h ?j i")
      case False
      then have "down h i n = h" by (subst down_unfold) simp
      moreover have "heap_hasta h n"
        unfolding heap_hasta_def
      proof (intro allI impI)
        fix j assume jn: "j < n"
        show "prioridad (h ! j) \<le> prioridad (h ! padre j)"
        proof (cases "padre j = i")
          case True
          then consider "j = 0" | "j = 2 * i + 1 \<or> j = 2 * i + 2" by (auto simp: padre_eq)
          then show ?thesis
          proof cases
            case 1 then show ?thesis by (simp add: padre_def)
          next
            case 2
            from hijo_max[where h=h, OF c1 jn 2] False True show ?thesis by (simp add: Less_def)
          qed
        next
          case False
          with paso(2) jn show ?thesis by (simp add: casi_down_def)
        qed
      qed
      ultimately show ?thesis by simp
    next
      case c2: True
      let ?h' = "Swap h i ?j"
      have il: "i < length h" "?j < length h" using b paso(3) by auto
      have "casi_down ?h' n ?j"
        unfolding casi_down_def
      proof (intro conjI allI impI)
        fix k assume kn: "k < n" and pk: "padre k \<noteq> ?j"
        show "prioridad (?h' ! k) \<le> prioridad (?h' ! padre k)"
        proof (cases "padre k = i")
          case True
          then consider "k = 0" | "k = 2 * i + 1 \<or> k = 2 * i + 2" by (auto simp: padre_eq)
          then show ?thesis
          proof cases
            case 1 then show ?thesis by (simp add: padre_def)
          next
            case 2
            then have ki: "k \<noteq> i" by auto
            from hijo_max[where h=h, OF c1 kn 2] have m: "prioridad (h ! k) \<le> prioridad (h ! ?j)" .
            show ?thesis using True ki m c2 b il
              by (auto simp: Swap_nth Less_def)
          qed
        next
          case False
          show ?thesis
          proof (cases "k = i")
            case True
            with b False have i0: "0 < i" by (cases i) (auto simp: padre_def)
            have pi: "padre i < i" using padre_lt[OF i0] .
            have pj: "padre ?j = i" using hijo_cases[of h i n] by (auto simp: padre_eq)
            from paso(2) b pj i0 have "prioridad (h ! ?j) \<le> prioridad (h ! padre i)"
              by (auto simp: casi_down_def)
            then show ?thesis using True pi b il by (simp add: Swap_nth)
          next
            case ki: False
            have kj: "k \<noteq> ?j" using False hijo_cases[of h i n] by (auto simp: padre_eq)
            from paso(2) kn False have "prioridad (h ! k) \<le> prioridad (h ! padre k)"
              by (simp add: casi_down_def)
            then show ?thesis using ki kj False pk il by (simp add: Swap_nth)
          qed
        qed
      next
        fix k assume kn: "k < n" and pk: "padre k = ?j \<and> 0 < ?j"
        have pj: "padre ?j = i" using hijo_cases[of h i n] by (auto simp: padre_eq)
        have kj: "?j < k" using pk b padre_lt[of k] by (cases k) (auto simp: padre_def)
        then have "k \<noteq> i" "k \<noteq> ?j" using b by auto
        moreover have "prioridad (h ! k) \<le> prioridad (h ! ?j)"
          using paso(2) kn pk b by (auto simp: casi_down_def)
        ultimately show "prioridad (?h' ! k) \<le> prioridad (?h' ! padre ?j)"
          using pj il b by (simp add: Swap_nth)
      qed
      then have "heap_hasta (down ?h' ?j n) n"
        using paso(1)[OF c1 c2] paso(3) by simp
      then show ?thesis
        using c1 c2 by (subst down_unfold) simp
    qed
  qed
qed


lemma up_unfold:
  "up h j = (if padre j = j \<or> \<not> Less h j (padre j) then h else up (Swap h (padre j) j) (padre j))"
  by (subst up.simps) (simp add: Let_def padre_def)

lemma up_induct [case_names paso]:
  assumes "\<And>h j. (padre j \<noteq> j \<Longrightarrow> Less h j (padre j) \<Longrightarrow> P (Swap h (padre j) j) (padre j)) \<Longrightarrow> P h j"
  shows "P h j"
proof (induction h j rule: up.induct)
  case (1 h j)
  show ?case
  proof (rule assms)
    assume a: "padre j \<noteq> j" "Less h j (padre j)"
    show "P (Swap h (padre j) j) (padre j)"
      unfolding padre_def
      by (rule 1[OF refl]) (use a in \<open>simp add: padre_def\<close>)
  qed
qed

lemma up_heap:
  "casi_up h j \<Longrightarrow> j < length h \<Longrightarrow> is_heap (up h j)"
proof (induction h j rule: up_induct)
  case (paso h j)
  let ?i = "padre j"
  show ?case
  proof (cases "?i \<noteq> j \<and> Less h j ?i")
    case False
    then have "up h j = h" by (subst up_unfold) auto
    moreover have "is_heap h"
      unfolding is_heap_def heap_hasta_def
    proof (intro allI impI)
      fix k assume kl: "k < length h"
      show "prioridad (h ! k) \<le> prioridad (h ! padre k)"
      proof (cases "k = j")
        case True
        with False show ?thesis by (auto simp: Less_def)
      next
        case False
        with paso(2) kl show ?thesis by (simp add: casi_up_def)
      qed
    qed
    ultimately show ?thesis by simp
  next
    case True
    then have c: "?i \<noteq> j" "Less h j ?i" by auto
    have ij: "?i < j" using c(1) padre_le[of j] by simp
    have il: "?i < length h" using ij paso(3) by simp
    let ?h' = "Swap h ?i j"
    have lt: "prioridad (h ! ?i) < prioridad (h ! j)" using c(2) by (simp add: Less_def)
    have "casi_up ?h' ?i"
      unfolding casi_up_def
    proof (intro conjI allI impI)
      fix k assume kl: "k < length ?h'" and ki: "k \<noteq> ?i"
      show "prioridad (?h' ! k) \<le> prioridad (?h' ! padre k)"
      proof (cases "k = j")
        case True
        then show ?thesis using lt il paso(3) ij by (simp add: Swap_nth)
      next
        case kj: False
        have old: "prioridad (h ! k) \<le> prioridad (h ! padre k)"
          using paso(2) kl kj by (simp add: casi_up_def)
        show ?thesis
        proof (cases "padre k = j")
          case True
          with paso(2) kl kj have "prioridad (h ! k) \<le> prioridad (h ! ?i)"
            by (simp add: casi_up_def)
          then show ?thesis using True kj ki il paso(3) ij by (simp add: Swap_nth)
        next
          case pj: False
          show ?thesis
          proof (cases "padre k = ?i")
            case True
            then show ?thesis using old lt kj ki il paso(3) ij by (simp add: Swap_nth)
          next
            case False
            then show ?thesis using old pj kj ki il paso(3) by (simp add: Swap_nth)
          qed
        qed
      qed
    next
      fix k assume kl: "k < length ?h'" and pk: "padre k = ?i \<and> k \<noteq> ?i"
      have pii: "prioridad (h ! ?i) \<le> prioridad (h ! padre ?i)"
        using paso(2) il c(1) by (simp add: casi_up_def)
      have ppj: "padre ?i \<noteq> j" using padre_le[of ?i] ij by simp
      have hk: "prioridad (?h' ! k) \<le> prioridad (h ! ?i)"
      proof (cases "k = j")
        case True
        then show ?thesis using il paso(3) ij by (simp add: Swap_nth)
      next
        case False
        with paso(2) kl have "prioridad (h ! k) \<le> prioridad (h ! padre k)"
          by (simp add: casi_up_def)
        then show ?thesis using False pk il paso(3) by (simp add: Swap_nth)
      qed
      show "prioridad (?h' ! k) \<le> prioridad (?h' ! padre ?i)"
      proof (cases "padre ?i = ?i")
        case True
        then show ?thesis using hk lt il paso(3) ij by (simp add: Swap_nth)
      next
        case False
        then show ?thesis using hk pii ppj il paso(3) by (simp add: Swap_nth)
      qed
    qed
    then have "is_heap (up ?h' ?i)"
      using paso(1)[OF c] il by simp
    then show ?thesis using c by (subst up_unfold) simp
  qed
qed


lemma mset_heap_Push: "mset (heap_Push h x) = add_mset x (mset h)"
  by (simp add: heap_Push_def Push_def Len_def Let_def mset_up)

lemma length_heap_Push: "length (heap_Push h x) = Suc (length h)"
  by (simp add: heap_Push_def Push_def Len_def Let_def)

lemma is_heap_Push: "is_heap h \<Longrightarrow> is_heap (heap_Push h x)"
proof -
  assume hp: "is_heap h"
  have "casi_up (h @ [x]) (length h)"
    unfolding casi_up_def
  proof (intro conjI allI impI)
    fix k assume "k < length (h @ [x])" and "k \<noteq> length h"
    then have kl: "k < length h" by simp
    then have "padre k < length h" using padre_le[of k] by simp
    with hp kl show "prioridad ((h @ [x]) ! k) \<le> prioridad ((h @ [x]) ! padre k)"
      by (simp add: is_heap_def heap_hasta_def nth_append)
  next
    fix k assume "k < length (h @ [x])" and "padre k = length h \<and> k \<noteq> length h"
    then have False using padre_le[of k] by simp
    then show "prioridad ((h @ [x]) ! k) \<le> prioridad ((h @ [x]) ! padre (length h))" ..
  qed
  then show ?thesis
    by (simp add: heap_Push_def Push_def Len_def Let_def up_heap)
qed

lemma is_heap_root: "is_heap h \<Longrightarrow> j < length h \<Longrightarrow> prioridad (h ! j) \<le> prioridad (h ! 0)"
proof (induction j rule: less_induct)
  case (less j)
  show ?case
  proof (cases "j = 0")
    case True then show ?thesis by simp
  next
    case False
    then have pl: "padre j < j" by (simp add: padre_lt)
    have "prioridad (h ! j) \<le> prioridad (h ! padre j)"
      using less.prems by (simp add: is_heap_def heap_hasta_def)
    also have "\<dots> \<le> prioridad (h ! 0)"
      using less.IH[OF pl less.prems(1)] pl less.prems(2) by simp
    finally show ?thesis .
  qed
qed

lemma heap_Pop_eq:
  "h \<noteq> [] \<Longrightarrow>
   heap_Pop h = Some (h ! 0, butlast (down (Swap h 0 (length h - 1)) 0 (length h - 1)))"
proof -
  assume ne: "h \<noteq> []"
  let ?n = "length h - 1"
  let ?h2 = "down (Swap h 0 ?n) 0 ?n"
  have n: "?n < length h" using ne by (cases h) auto
  have ne2: "?h2 \<noteq> []" using ne by (metis length_down length_Swap length_0_conv)
  have "last ?h2 = ?h2 ! (length ?h2 - 1)"
    using ne2 by (rule last_conv_nth)
  then have "last ?h2 = ?h2 ! ?n" by simp
  also have "\<dots> = Swap h 0 ?n ! ?n" by (rule down_nth) simp_all
  also have "\<dots> = h ! 0" using n ne by (simp add: Swap_nth)
  finally have "last ?h2 = h ! 0" .
  moreover have "?h2 \<noteq> []" using ne by (metis length_down length_Swap length_0_conv)
  ultimately show ?thesis
    using ne by (simp add: heap_Pop_def Pop_def Len_def Let_def)
qed

lemma heap_Pop_None: "heap_Pop h = None \<longleftrightarrow> h = []"
  using heap_Pop_eq[of h] by (auto simp: heap_Pop_def Len_def)

lemma heap_Pop_mset: "heap_Pop h = Some (x, h') \<Longrightarrow> mset h = add_mset x (mset h')"
proof -
  assume a: "heap_Pop h = Some (x, h')"
  then have ne: "h \<noteq> []" using heap_Pop_None[of h] by auto
  let ?n = "length h - 1"
  let ?h2 = "down (Swap h 0 ?n) 0 ?n"
  have n: "?n < length h" using ne by (cases h) auto
  have ne2: "?h2 \<noteq> []" using ne by (metis length_down length_Swap length_0_conv)
  from a heap_Pop_eq[OF ne] have x: "x = h ! 0" and h': "h' = butlast ?h2" by auto
  have l: "last ?h2 = x" using a ne ne2 by (simp add: heap_Pop_def Pop_def Len_def Let_def)
  have "mset ?h2 = mset h" using n ne by (simp add: mset_down mset_Swap)
  moreover have "mset ?h2 = mset (butlast ?h2 @ [last ?h2])"
    using ne2 by simp
  ultimately show ?thesis using l h' by simp
qed

lemma heap_Pop_heap:
  assumes "is_heap h" and "heap_Pop h = Some (x, h')"
  shows "is_heap h'" and "\<forall>y \<in> set h. prioridad y \<le> prioridad x"
proof -
  from assms(2) have ne: "h \<noteq> []" using heap_Pop_None[of h] by auto
  let ?n = "length h - 1"
  let ?h1 = "Swap h 0 ?n"
  let ?h2 = "down ?h1 0 ?n"
  have n: "?n < length h" using ne by (cases h) auto
  from assms(2) heap_Pop_eq[OF ne] have x: "x = h ! 0" and h': "h' = butlast ?h2" by auto
  show "\<forall>y \<in> set h. prioridad y \<le> prioridad x"
    using is_heap_root[OF assms(1)] x by (auto simp: in_set_conv_nth)
  have "casi_down ?h1 ?n 0"
    unfolding casi_down_def
  proof (intro conjI allI impI)
    fix j assume jn: "j < ?n" and pj: "padre j \<noteq> 0"
    then have j0: "j \<noteq> 0" by (auto simp: padre_def)
    have pn: "padre j \<noteq> ?n" using padre_le[of j] jn by simp
    have "prioridad (h ! j) \<le> prioridad (h ! padre j)"
      using assms(1) jn by (simp add: is_heap_def heap_hasta_def)
    then show "prioridad (?h1 ! j) \<le> prioridad (?h1 ! padre j)"
      using jn j0 pj pn n ne by (simp add: Swap_nth)
  qed simp
  then have "heap_hasta ?h2 ?n" by (rule down_heap) simp
  then have hh: "\<forall>j<?n. prioridad (?h2 ! j) \<le> prioridad (?h2 ! padre j)"
    by (simp add: heap_hasta_def)
  show "is_heap h'"
    unfolding h' is_heap_def heap_hasta_def
  proof (intro allI impI)
    fix j assume "j < length (butlast ?h2)"
    then have jn: "j < ?n" by simp
    then have pn: "padre j < ?n" using padre_le[of j] by simp
    from hh jn have "prioridad (?h2 ! j) \<le> prioridad (?h2 ! padre j)" by simp
    then show "prioridad (butlast ?h2 ! j) \<le> prioridad (butlast ?h2 ! padre j)"
      using jn pn by (simp add: nth_butlast)
  qed
qed

section \<open>Properties of the state machine\<close>

lemma calcularPrioridad_tabla: "calcularPrioridad s a = calcPriority a s"
  by (simp add: calcularPrioridad_def calcPriority_def)

lemma reordenarCola_loop_result:
  "is_heap nueva \<Longrightarrow>
   \<exists>nueva'. reordenarCola_loop e cola nueva = Some nueva' \<and> is_heap nueva' \<and>
     mset nueva' = mset nueva + image_mset (reprioriza e) (mset cola)"
proof (induction e cola nueva rule: reordenarCola_loop.induct)
  case (1 e cola nueva)
  show ?case
  proof (cases "cola = []")
    case True
    with 1(2) show ?thesis
      by (subst reordenarCola_loop.simps) (simp add: Len_def)
  next
    case False
    then obtain a cola' where pop: "heap_Pop cola = Some (a, cola')"
      using heap_Pop_None[of cola] by (cases "heap_Pop cola") auto
    let ?n = "heap_Push nueva (a\<lparr>prioridad := calcularPrioridad e a\<rparr>)"
    have hn: "is_heap ?n" using 1(2) by (rule is_heap_Push)
    from False have len: "Len cola > 0" by (simp add: Len_def)
    from 1(1)[OF len pop refl hn] obtain nueva' where
      r: "reordenarCola_loop e cola' ?n = Some nueva'" "is_heap nueva'"
         "mset nueva' = mset ?n + image_mset (reprioriza e) (mset cola')"
      by auto
    have "reordenarCola_loop e cola nueva = Some nueva'"
      using len pop r(1) by (subst reordenarCola_loop.simps) simp
    moreover have "mset nueva' = mset nueva + image_mset (reprioriza e) (mset cola)"
      using r(3) heap_Pop_mset[OF pop] by (simp add: mset_heap_Push reprioriza_def)
    ultimately show ?thesis using r(2) by blast
  qed
qed

lemma is_heap_Nil: "is_heap []"
  by (simp add: is_heap_def heap_hasta_def)

lemma actualizarEstado_retiene:
  "e = 7 \<or> e = 8 \<Longrightarrow> actualizarEstado e t = Some ([Println_mantiene (estadoActual t)], t)"
  by (simp add: actualizarEstado_def)

lemma actualizarEstado_inactivo:
  "e < 1 \<or> 8 < e \<Longrightarrow>
   actualizarEstado e t =
     Some ([Printf_actualizado e],
           t\<lparr>estadoActual := e, procesar := False, detenerProceso := False\<rparr>)"
  by (auto simp: actualizarEstado_def Let_def)

lemma actualizarEstado_activo:
  assumes "1 \<le> e" "e \<le> 6"
  shows "\<exists>cola'. actualizarEstado e t =
           Some ([Printf_actualizado e],
                 t\<lparr>estadoActual := e, procesar := True, detenerProceso := False,
                   colaAviones := cola'\<rparr>)
         \<and> is_heap cola'
         \<and> mset cola' = image_mset (reprioriza e) (mset (colaAviones t))"
proof -
  from reordenarCola_loop_result[OF is_heap_Nil, of e "colaAviones t"]
  obtain cola' where r: "reordenarCola_loop e (colaAviones t) [] = Some cola'"
    "is_heap cola'" "mset cola' = image_mset (reprioriza e) (mset (colaAviones t))"
    by auto
  have "actualizarEstado e t =
           Some ([Printf_actualizado e],
                 t\<lparr>estadoActual := e, procesar := True, detenerProceso := False,
                   colaAviones := cola'\<rparr>)"
    using assms r(1) by (simp add: actualizarEstado_def Let_def reordenarCola_def)
  with r(2,3) show ?thesis by blast
qed

lemma actualizarEstado_casos:
  "(e = 7 \<or> e = 8) \<or> (e < 1 \<or> 8 < e) \<or> (1 \<le> e \<and> e \<le> 6)" for e :: int
  by arith

section \<open>Properties of the dispatcher and of runs\<close>

lemma heap_Pop_set:
  "heap_Pop h = Some (x, h') \<Longrightarrow> set h = insert x (set h')"
  by (drule heap_Pop_mset) (metis set_mset_add_mset_insert set_mset_mset)

lemma set_heap_Push: "set (heap_Push h x) = insert x (set h)"
  by (metis mset_heap_Push set_mset_add_mset_insert set_mset_mset)

lemma procesarCola_iter_espera:
  "detenerProceso t \<or> \<not> procesar t \<or> colaAviones t = [] \<Longrightarrow>
   procesarCola_iter t = Some ([], Espera, t)"
  by (auto simp: procesarCola_iter_def Len_def)

lemma procesarCola_iter_saca:
  assumes "\<not> detenerProceso t" "procesar t" "heap_Pop (colaAviones t) = Some (a, cola')"
  shows "procesarCola_iter t =
     (if estadoActual t \<ge> 1 \<and> estadoActual t \<le> 3
         \<and> \<not> esCategoriaValida (estadoActual t) a
      then Some ([Printf_agotada (categoriaEstado (estadoActual t))], Agotada a,
                 t\<lparr>colaAviones := heap_Push cola' a, detenerProceso := True\<rparr>)
      else Some ([], Despacha a, t\<lparr>colaAviones := cola'\<rparr>))"
proof -
  from assms(3) have "colaAviones t \<noteq> []" using heap_Pop_None[of "colaAviones t"] by auto
  with assms show ?thesis by (simp add: procesarCola_iter_def Len_def)
qed

lemma paso_Iteracion:
  assumes "is_heap (colaAviones t)"
  shows "\<exists>r t'. paso Iteracion t = Some (Ciclo r, t')
           \<and> estadoActual t' = estadoActual t \<and> procesar t' = procesar t
           \<and> is_heap (colaAviones t')
           \<and> set (colaAviones t') \<subseteq> set (colaAviones t)
           \<and> set (sacado (Ciclo r)) \<subseteq> set (colaAviones t)
           \<and> (\<forall>a \<in> set (sacado (Ciclo r)). \<forall>b \<in> set (colaAviones t).
                 prioridad b \<le> prioridad a)"
proof (cases "detenerProceso t \<or> \<not> procesar t \<or> colaAviones t = []")
  case True
  then have "paso Iteracion t = Some (Ciclo Espera, t)"
    by (simp add: procesarCola_iter_espera)
  with assms show ?thesis by simp
next
  case False
  then obtain a c' where pop: "heap_Pop (colaAviones t) = Some (a, c')"
    using heap_Pop_None[of "colaAviones t"] by (cases "heap_Pop (colaAviones t)") auto
  note it = procesarCola_iter_saca[OF _ _ pop]
  from heap_Pop_heap[OF assms pop]
  have h': "is_heap c'" and mx: "\<forall>y \<in> set (colaAviones t). prioridad y \<le> prioridad a"
    by auto
  have st: "set (colaAviones t) = insert a (set c')" using pop by (rule heap_Pop_set)
  show ?thesis
  proof (cases "estadoActual t \<ge> 1 \<and> estadoActual t \<le> 3
         \<and> \<not> esCategoriaValida (estadoActual t) a")
    case True
    with it False have "paso Iteracion t =
        Some (Ciclo (Agotada a), t\<lparr>colaAviones := heap_Push c' a, detenerProceso := True\<rparr>)"
      by simp
    then show ?thesis using h' mx st by (simp add: is_heap_Push set_heap_Push)
  next
    case no: False
    with it False have "paso Iteracion t = Some (Ciclo (Despacha a), t\<lparr>colaAviones := c'\<rparr>)"
      by auto
    then show ?thesis using h' mx st by auto
  qed
qed

lemma sacados_Cons: "sacados (ev # evs) = sacado ev @ sacados evs"
  by (simp add: sacados_def)

lemma iteraciones:
  "is_heap (colaAviones t) \<Longrightarrow>
   \<exists>evs t'. ejecutar (replicate n Iteracion) t = Some (evs, t')
      \<and> estadoActual t' = estadoActual t \<and> procesar t' = procesar t
      \<and> set (colaAviones t') \<subseteq> set (colaAviones t)
      \<and> set (sacados evs) \<subseteq> set (colaAviones t)
      \<and> sorted_wrt (\<lambda>a b. prioridad b \<le> prioridad a) (sacados evs)
      \<and> (\<forall>a \<in> set (sacados evs). \<forall>b \<in> set (colaAviones t'). prioridad b \<le> prioridad a)"
proof (induction n arbitrary: t)
  case 0
  then show ?case by (simp add: sacados_def)
next
  case (Suc n)
  from paso_Iteracion[OF Suc.prems] obtain r t1 where
    p: "paso Iteracion t = Some (Ciclo r, t1)"
       "estadoActual t1 = estadoActual t" "procesar t1 = procesar t"
       "is_heap (colaAviones t1)"
       "set (colaAviones t1) \<subseteq> set (colaAviones t)"
       "set (sacado (Ciclo r)) \<subseteq> set (colaAviones t)"
       "\<forall>a \<in> set (sacado (Ciclo r)). \<forall>b \<in> set (colaAviones t). prioridad b \<le> prioridad a"
    by blast
  from Suc.IH[OF p(4)] obtain evs t' where
    r: "ejecutar (replicate n Iteracion) t1 = Some (evs, t')"
       "estadoActual t' = estadoActual t1" "procesar t' = procesar t1"
       "set (colaAviones t') \<subseteq> set (colaAviones t1)"
       "set (sacados evs) \<subseteq> set (colaAviones t1)"
       "sorted_wrt (\<lambda>a b. prioridad b \<le> prioridad a) (sacados evs)"
       "\<forall>a \<in> set (sacados evs). \<forall>b \<in> set (colaAviones t'). prioridad b \<le> prioridad a"
    by blast
  have e: "ejecutar (replicate (Suc n) Iteracion) t = Some (Ciclo r # evs, t')"
    using p(1) r(1) by simp
  have s1: "sorted_wrt (\<lambda>a b. prioridad b \<le> prioridad a) (sacados (Ciclo r # evs))"
    unfolding sacados_Cons sorted_wrt_append
  proof (intro conjI ballI)
    show "sorted_wrt (\<lambda>a b. prioridad b \<le> prioridad a) (sacado (Ciclo r))"
      by (cases r) simp_all
    show "sorted_wrt (\<lambda>a b. prioridad b \<le> prioridad a) (sacados evs)" by (rule r(6))
  next
    fix a b assume "a \<in> set (sacado (Ciclo r))" "b \<in> set (sacados evs)"
    then show "prioridad b \<le> prioridad a" using p(7) r(5) p(5) by blast
  qed
  have s2: "\<forall>a \<in> set (sacados (Ciclo r # evs)). \<forall>b \<in> set (colaAviones t').
              prioridad b \<le> prioridad a"
    unfolding sacados_Cons using p(7) r(7) r(4) p(5) by auto
  have s3: "set (sacados (Ciclo r # evs)) \<subseteq> set (colaAviones t)"
    unfolding sacados_Cons using p(6) r(5) p(5) by auto
  show ?case
    using e s1 s2 s3 p(2,3) r(2,3) r(4) p(5) by (intro exI conjI; (assumption | simp | blast))
qed

lemma paso_coherente:
  assumes "coherente t"
  shows "\<exists>ev t'. paso a t = Some (ev, t') \<and> coherente t'"
proof (cases a)
  case Iteracion
  from assms have h: "is_heap (colaAviones t)" by (simp add: coherente_def)
  from paso_Iteracion[OF h] obtain r t' where
    p: "paso Iteracion t = Some (Ciclo r, t')"
       "estadoActual t' = estadoActual t" "procesar t' = procesar t"
       "is_heap (colaAviones t')"
       "set (colaAviones t') \<subseteq> set (colaAviones t)"
    by blast
  then have "coherente t'" using assms by (auto simp: coherente_def)
  with p(1) Iteracion show ?thesis by blast
next
  case (Estado e)
  consider "e = 7 \<or> e = 8" | "e < 1 \<or> 8 < e" | "1 \<le> e \<and> e \<le> 6"
    using actualizarEstado_casos[of e] by blast
  then show ?thesis
  proof cases
    case 1
    then show ?thesis using assms Estado by (simp add: actualizarEstado_retiene)
  next
    case 2
    then show ?thesis using assms Estado
      by (auto simp: actualizarEstado_inactivo coherente_def)
  next
    case 3
    then have a: "1 \<le> e" "e \<le> 6" by auto
    from actualizarEstado_activo[OF a, of t] obtain c where
      r: "actualizarEstado e t =
             Some ([Printf_actualizado e],
                   t\<lparr>estadoActual := e, procesar := True, detenerProceso := False,
                     colaAviones := c\<rparr>)"
         "is_heap c" "mset c = image_mset (reprioriza e) (mset (colaAviones t))"
      by blast
    have "\<forall>x \<in> set c. prioridad x = calcularPrioridad e x"
    proof
      fix x assume "x \<in> set c"
      then have "x \<in># image_mset (reprioriza e) (mset (colaAviones t))"
        using r(3) by (metis set_mset_mset)
      then obtain b where "x = reprioriza e b" by auto
      then show "prioridad x = calcularPrioridad e x"
        by (simp add: reprioriza_def calcularPrioridad_def)
    qed
    then show ?thesis using r(1,2) Estado a by (simp add: coherente_def)
  qed
qed

lemma ejecutar_coherente:
  "coherente t \<Longrightarrow> \<exists>evs t'. ejecutar acts t = Some (evs, t') \<and> coherente t'"
proof (induction acts arbitrary: t)
  case Nil
  then show ?case by simp
next
  case (Cons a acts)
  from paso_coherente[OF Cons.prems, of a] obtain ev t1 where
    p: "paso a t = Some (ev, t1)" "coherente t1" by blast
  from Cons.IH[OF p(2)] obtain evs t' where
    r: "ejecutar acts t1 = Some (evs, t')" "coherente t'" by blast
  from p(1) r show ?case by simp
qed

lemma is_heap_init_vuelta: "is_heap h \<Longrightarrow> is_heap (init_vuelta rnd h i)"
  by (simp add: init_vuelta_def Let_def is_heap_Push)

lemma is_heap_fold_init:
  "is_heap h \<Longrightarrow> is_heap (fold (\<lambda>i h. init_vuelta rnd h i) xs h)"
  by (induction xs arbitrary: h) (simp_all add: is_heap_init_vuelta)

lemma init_coherente: "coherente (init rnd)"
proof -
  have "heap_Init [] = []" by (simp add: heap_Init_def Len_def)
  then show ?thesis
    by (simp add: init_def coherente_def is_heap_fold_init is_heap_Nil)
qed

text \<open>A run from start-up: state 4, then twelve dispatcher passes.\<close>

lemma ejemplo_estado_4:
  "map_option (\<lambda>(evs, t'). map categoria (sacados evs))
     (Option.bind (ejecutar [Estado 4] (init (\<lambda>_. 0)))
        (\<lambda>(evs0, t). ejecutar (replicate 12 Iteracion) t))
   = Some [''A'', ''A'', ''A'', ''A'', ''A'', ''A'', ''A'', ''A'', ''A'', ''A'', ''B'', ''C'']"
  by code_simp

lemma despachados_Cons: "despachados (ev # evs) = despachado ev @ despachados evs"
  by (simp add: despachados_def)

lemma detenido_no_despacha:
  "detenerProceso t \<Longrightarrow> (\<forall>e. Estado e \<in> set acts \<longrightarrow> e = 7 \<or> e = 8) \<Longrightarrow>
   \<exists>evs. ejecutar acts t = Some (evs, t) \<and> sacados evs = [] \<and> despachados evs = []"
proof (induction acts)
  case Nil
  then show ?case by (simp add: sacados_def despachados_def)
next
  case (Cons a acts)
  from Cons.IH[OF Cons.prems(1)] Cons.prems(2) obtain evs where
    r: "ejecutar acts t = Some (evs, t)" "sacados evs = []" "despachados evs = []"
    by auto
  show ?case
  proof (cases a)
    case Iteracion
    have "paso a t = Some (Ciclo Espera, t)"
      using Cons.prems(1) Iteracion by (simp add: procesarCola_iter_espera)
    with r show ?thesis by (simp add: sacados_Cons despachados_Cons)
  next
    case (Estado e)
    with Cons.prems(2) have "e = 7 \<or> e = 8" by simp
    then have "paso a t = Some (Cambio e, t)"
      using Estado by (simp add: actualizarEstado_retiene)
    with r show ?thesis by (simp add: sacados_Cons despachados_Cons)
  qed
qed

lemma actualizarEstado_reanuda:
  assumes "e \<noteq> 7" "e \<noteq> 8"
  shows "\<exists>out t'. actualizarEstado e t = Some (out, t') \<and> \<not> detenerProceso t'"
proof -
  consider "e < 1 \<or> 8 < e" | "1 \<le> e \<and> e \<le> 6"
    using actualizarEstado_casos[of e] assms by blast
  then show ?thesis
  proof cases
    case 1
    then show ?thesis by (simp add: actualizarEstado_inactivo)
  next
    case 2
    then have a: "1 \<le> e" "e \<le> 6" by auto
    from actualizarEstado_activo[OF a, of t] show ?thesis by auto
  qed
qed

lemma esCategoriaValida_categoriaEstado:
  "1 \<le> e \<Longrightarrow> e \<le> 3 \<Longrightarrow> esCategoriaValida e a = (categoria a = categoriaEstado e)"
  by (auto simp: esCategoriaValida_def categoriaEstado_def)

section \<open>Properties of the runways\<close>

lemma init_pistas_eq: "init_pistas = Some pistas_inicial"
  by (simp add: init_pistas_def enviar_def capacidad_def pistas_inicial_def)

lemma cuenta_update:
  assumes "i < length hs"
  shows "length (filter (\<lambda>h. h = EnPista) (hs[i := x])) + (if hs ! i = EnPista then 1 else 0)
         = length (filter (\<lambda>h. h = EnPista) hs) + (if x = EnPista then 1 else 0)"
proof -
  have "hs[i := x] = take i hs @ x # drop (Suc i) hs"
    using assms by (rule upd_conv_take_nth_drop)
  moreover have "hs = take i hs @ hs ! i # drop (Suc i) hs"
    using assms by (rule id_take_nth_drop)
  ultimately have
    "length (filter (\<lambda>h. h = EnPista) (hs[i := x])) + (if hs ! i = EnPista then 1 else 0)
     = length (filter (\<lambda>h. h = EnPista) (take i hs @ x # drop (Suc i) hs))
       + (if hs ! i = EnPista then 1 else 0)"
    and "length (filter (\<lambda>h. h = EnPista) hs)
     = length (filter (\<lambda>h. h = EnPista) (take i hs @ hs ! i # drop (Suc i) hs))"
    by simp_all
  then show ?thesis by simp
qed

lemma paso_Reserva:
  assumes "paso_pista (Reserva i) p = Some p'"
  shows "0 < pistasDisponibles p \<and> pistasDisponibles p' = pistasDisponibles p - 1
         \<and> ocupadas p' = ocupadas p + 1"
proof -
  from assms have c: "i < length (hilos p)" "hilos p ! i = Fuera" "0 < pistasDisponibles p"
    and p': "p' = p\<lparr>pistasDisponibles := pistasDisponibles p - 1,
                     hilos := (hilos p)[i := EnPista]\<rparr>"
    by (auto simp: paso_pista_def recibir_def split: if_splits)
  from cuenta_update[OF c(1), of EnPista] c(2) have "ocupadas p' = ocupadas p + 1"
    by (simp add: ocupadas_def p')
  with c(3) p' show ?thesis by simp
qed

lemma paso_Libera:
  assumes "paso_pista (Libera i) p = Some p'"
  shows "pistasDisponibles p < capacidad \<and> pistasDisponibles p' = pistasDisponibles p + 1
         \<and> ocupadas p' + 1 = ocupadas p"
proof -
  from assms have c: "i < length (hilos p)" "hilos p ! i = EnPista"
      "pistasDisponibles p < capacidad"
    and p': "p' = p\<lparr>pistasDisponibles := pistasDisponibles p + 1,
                     hilos := (hilos p)[i := Fuera]\<rparr>"
    by (auto simp: paso_pista_def enviar_def split: if_splits)
  from cuenta_update[OF c(1), of Fuera] c(2) have "ocupadas p' + 1 = ocupadas p"
    by (simp add: ocupadas_def p')
  with c(3) p' show ?thesis by simp
qed

lemma paso_Lanza:
  "paso_pista Lanza p = Some p' \<Longrightarrow>
   pistasDisponibles p' = pistasDisponibles p \<and> ocupadas p' = ocupadas p"
  by (auto simp: paso_pista_def ocupadas_def)

lemma paso_pista_suma:
  assumes "paso_pista a p = Some p'"
    and "pistasDisponibles p + ocupadas p = capacidad"
  shows "pistasDisponibles p' + ocupadas p' = capacidad"
proof (cases a)
  case Lanza
  with assms paso_Lanza[of p p'] show ?thesis by simp
next
  case (Reserva i)
  with assms paso_Reserva[of i p p'] show ?thesis by simp
next
  case (Libera i)
  with assms paso_Libera[of i p p'] show ?thesis by simp
qed

lemma ejecutar_pistas_suma:
  "ejecutar_pistas acts p = Some p' \<Longrightarrow>
   pistasDisponibles p + ocupadas p = capacidad \<Longrightarrow>
   pistasDisponibles p' + ocupadas p' = capacidad"
proof (induction acts arbitrary: p)
  case Nil
  then show ?case by simp
next
  case (Cons a acts)
  from Cons.prems(1) obtain p1 where
    s: "paso_pista a p = Some p1" "ejecutar_pistas acts p1 = Some p'"
    by (auto split: option.splits)
  from paso_pista_suma[OF s(1) Cons.prems(2)] Cons.IH[OF s(2)] show ?case by simp
qed

section \<open>Properties of message handling\<close>

lemma actualizarEstado_total: "\<exists>out t'. actualizarEstado e t = Some (out, t')"
proof -
  consider "e = 7 \<or> e = 8" | "e < 1 \<or> 8 < e" | "1 \<le> e \<and> e \<le> 6"
    using actualizarEstado_casos[of e] by blast
  then show ?thesis
  proof cases
    case 1 then show ?thesis by (simp add: actualizarEstado_retiene)
  next
    case 2 then show ?thesis by (simp add: actualizarEstado_inactivo)
  next
    case 3
    then have "1 \<le> e" "e \<le> 6" by auto
    from actualizarEstado_activo[OF this, of t] show ?thesis by blast
  qed
qed

lemma descripcionEstado_tabla:
  "e \<in> tabla_descripciones \<Longrightarrow>
   \<exists>d. descripciones e = Some d \<and> descripcionEstado e = [Printf_descripcion d]"
  by (auto simp: tabla_descripciones_def descripcionEstado_def descripciones_def)

lemma descripcionEstado_fuera:
  "e \<notin> tabla_descripciones \<Longrightarrow> descripcionEstado e = []"
  by (simp add: tabla_descripciones_def descripcionEstado_def descripciones_def)

lemma leerMensajes_lectura_numero:
  assumes "raw \<noteq> []" "Atoi (TrimSpace raw) = Some e"
  shows "\<exists>out t'. actualizarEstado e (t\<lparr>msg := TrimSpace raw\<rparr>) = Some (out, t')
          \<and> leerMensajes_lectura raw t = Some (out @ descripcionEstado e, t')"
proof -
  from actualizarEstado_total[of e "t\<lparr>msg := TrimSpace raw\<rparr>"] obtain out t' where
    a: "actualizarEstado e (t\<lparr>msg := TrimSpace raw\<rparr>) = Some (out, t')" by blast
  then have "leerMensajes_lectura raw t = Some (out @ descripcionEstado e, t')"
    using assms by (simp add: leerMensajes_lectura_def Let_def)
  with a show ?thesis by blast
qed

lemma leerMensajes_lectura_texto:
  assumes "raw \<noteq> []" "Atoi (TrimSpace raw) = None"
  shows "leerMensajes_lectura raw t =
           Some ([Println_msg (TrimSpace raw)], t\<lparr>msg := TrimSpace raw\<rparr>)"
  using assms by (simp add: leerMensajes_lectura_def Let_def)

lemma find_espacio_ascii:
  "asciiSpace c \<Longrightarrow> find (\<lambda>p. prefix p (c # s)) espacios = Some [c]"
proof -
  assume a: "asciiSpace c"
  have p1: "prefix [d] (c # s) = (d = c)" for d
    by simp
  from a show ?thesis
    unfolding asciiSpace_def espacios_def
    by (elim disjE; simp only: find.simps p1; simp)
qed

lemma trimIzquierda_ascii:
  assumes "asciiSpace c"
  shows "trimIzquierda (c # s) = trimIzquierda s"
proof -
  have f: "find (\<lambda>p. prefix p (c # s)) espacios = Some [c]"
    using assms by (rule find_espacio_ascii)
  have "trimIzquierda (c # s) =
      (case find (\<lambda>p. prefix p (c # s)) espacios of
         None \<Rightarrow> c # s
       | Some p \<Rightarrow> trimIzquierda (drop (length p) (c # s)))"
    by (rule trimIzquierda.simps)
  also have "\<dots> = trimIzquierda (drop (length [c]) (c # s))"
    by (simp only: f option.case)
  also have "\<dots> = trimIzquierda s" by simp
  finally show ?thesis .
qed

lemma trimIzquierda_espacios:
  "\<forall>c \<in> set ws. asciiSpace c \<Longrightarrow> trimIzquierda (ws @ s) = trimIzquierda s"
  by (induction ws) (simp_all add: trimIzquierda_ascii)

lemma espacios_extremos:
  "p \<in> set espacios \<Longrightarrow> p \<noteq> [] \<and> inicioDeEspacio (hd p) \<and> finDeEspacio (last p)"
  unfolding espacios_def inicioDeEspacio_def finDeEspacio_def asciiSpace_def
  by (elim set_ConsD[elim_format] disjE; simp)

lemma trimIzquierda_para:
  "\<not> inicioDeEspacio c \<Longrightarrow> trimIzquierda (c # s) = c # s"
proof -
  assume n: "\<not> inicioDeEspacio c"
  have "\<not> prefix p (c # s)" if "p \<in> set espacios" for p
  proof
    assume "prefix p (c # s)"
    moreover from espacios_extremos[OF that] obtain a p' where "p = a # p'" "inicioDeEspacio a"
      by (cases p) auto
    ultimately show False using n by simp
  qed
  then have "find (\<lambda>p. prefix p (c # s)) espacios = None"
    unfolding find_None_iff by blast
  then show ?thesis by (subst trimIzquierda.simps) (simp only: option.case)
qed

lemma find_espacio_ascii_fin:
  "asciiSpace c \<Longrightarrow> find (\<lambda>p. suffix p (s @ [c])) espacios = Some [c]"
proof -
  assume a: "asciiSpace c"
  have s1: "suffix [d] (s @ [c]) = (d = c)" for d
    using snoc_suffix_snoc[of "[]" d s c] by simp
  from a show ?thesis
    unfolding asciiSpace_def espacios_def
    by (elim disjE; simp only: find.simps s1; simp)
qed

lemma trimDerecha_ascii:
  assumes "asciiSpace c"
  shows "trimDerecha (s @ [c]) = trimDerecha s"
proof -
  have f: "find (\<lambda>p. suffix p (s @ [c])) espacios = Some [c]"
    using assms by (rule find_espacio_ascii_fin)
  have "trimDerecha (s @ [c]) =
      (case find (\<lambda>p. suffix p (s @ [c])) espacios of
         None \<Rightarrow> s @ [c]
       | Some p \<Rightarrow> trimDerecha (take (length (s @ [c]) - length p) (s @ [c])))"
    by (rule trimDerecha.simps)
  also have "\<dots> = trimDerecha (take (length (s @ [c]) - length [c]) (s @ [c]))"
    by (simp only: f option.case)
  also have "\<dots> = trimDerecha s" by simp
  finally show ?thesis .
qed

lemma trimDerecha_espacios:
  "\<forall>c \<in> set ws. asciiSpace c \<Longrightarrow> trimDerecha (s @ ws) = trimDerecha s"
proof (induction ws rule: rev_induct)
  case Nil
  then show ?case by simp
next
  case (snoc c ws)
  have "trimDerecha (s @ ws @ [c]) = trimDerecha ((s @ ws) @ [c])" by simp
  also have "\<dots> = trimDerecha (s @ ws)" using snoc.prems by (intro trimDerecha_ascii) simp
  finally show ?case using snoc by simp
qed

lemma trimDerecha_para:
  "\<not> finDeEspacio c \<Longrightarrow> trimDerecha (s @ [c]) = s @ [c]"
proof -
  assume n: "\<not> finDeEspacio c"
  have "\<not> suffix p (s @ [c])" if "p \<in> set espacios" for p
  proof
    assume "suffix p (s @ [c])"
    moreover from espacios_extremos[OF that] obtain a p' where "p = p' @ [a]" "finDeEspacio a"
      by (cases p rule: rev_cases) auto
    ultimately show False using n by simp
  qed
  then have "find (\<lambda>p. suffix p (s @ [c])) espacios = None"
    unfolding find_None_iff by blast
  then show ?thesis by (subst trimDerecha.simps) (simp only: option.case)
qed

lemma TrimSpace_recorta:
  assumes "\<forall>c \<in> set ws1. asciiSpace c" "\<forall>c \<in> set ws2. asciiSpace c"
    and "s \<noteq> []" "\<not> inicioDeEspacio (hd s)" "\<not> finDeEspacio (last s)"
  shows "TrimSpace (ws1 @ s @ ws2) = s"
proof -
  from assms(3) obtain c s' where c: "s = c # s'" by (cases s) auto
  from assms(3) obtain d s'' where d: "s = s'' @ [d]" by (cases s rule: rev_cases) auto
  have "trimIzquierda (ws1 @ s @ ws2) = trimIzquierda (s @ ws2)"
    using assms(1) by (rule trimIzquierda_espacios)
  also have "\<dots> = s @ ws2" using assms(4) c by (simp add: trimIzquierda_para)
  finally have "TrimSpace (ws1 @ s @ ws2) = trimDerecha (s @ ws2)"
    by (simp add: TrimSpace_def)
  also have "\<dots> = trimDerecha s" using assms(2) by (rule trimDerecha_espacios)
  also have "\<dots> = s" using assms(5) d by (simp add: trimDerecha_para)
  finally show ?thesis .
qed

lemma esDigito_no_espacio: "esDigito c \<Longrightarrow> \<not> inicioDeEspacio c \<and> \<not> finDeEspacio c"
  by (auto simp: esDigito_def inicioDeEspacio_def finDeEspacio_def asciiSpace_def)

lemma Atoi_extremos:
  assumes "Atoi s = Some e"
  shows "s \<noteq> [] \<and> \<not> inicioDeEspacio (hd s) \<and> \<not> finDeEspacio (last s)"
proof -
  define ds where "ds = (if s \<noteq> [] \<and> (hd s = CHR ''-'' \<or> hd s = CHR ''+'') then tl s else s)"
  from assms have d: "ds \<noteq> []" "list_all esDigito ds"
    unfolding Atoi_def Let_def ds_def by (auto split: if_splits)
  then have ne: "s \<noteq> []" by (auto simp: ds_def split: if_splits)
  have "last ds \<in> set ds" using d(1) by simp
  then have "esDigito (last ds)" using d(2) by (simp add: list_all_iff)
  moreover have "last s = last ds"
    using d(1) ne by (cases s) (auto simp: ds_def split: if_splits)
  ultimately have l: "\<not> finDeEspacio (last s)" using esDigito_no_espacio by simp
  have "hd s = CHR ''-'' \<or> hd s = CHR ''+'' \<or> esDigito (hd s)"
  proof (cases "hd s = CHR ''-'' \<or> hd s = CHR ''+''")
    case True then show ?thesis by blast
  next
    case False
    then have "ds = s" by (simp add: ds_def)
    with d ne have "esDigito (hd s)" by (cases s) auto
    then show ?thesis by blast
  qed
  then have "\<not> inicioDeEspacio (hd s)"
    using esDigito_no_espacio[of "hd s"]
    by (auto simp: inicioDeEspacio_def asciiSpace_def)
  with ne l show ?thesis by blast
qed

section \<open>Claims\<close>

text \<open>
  C1. For a state code from 1 to 6, \<^verbatim>\<open>actualizarEstado\<close> succeeds, the new queue holds
  exactly the aircraft of the old one, each with its priority replaced by the tabulated
  value, and so every aircraft in the queue has the priority of the table, which is also
  what \<open>calcularPrioridad\<close> computes for the new state.
\<close>

theorem C1_prioridades_tras_setState:
  assumes "1 \<le> s" and "s \<le> 6"
  shows "\<exists>out t'. actualizarEstado s t = Some (out, t')
           \<and> estadoActual t' = s
           \<and> mset (colaAviones t') =
               image_mset (\<lambda>a. a\<lparr>prioridad := calcPriority a s\<rparr>) (mset (colaAviones t))
           \<and> (\<forall>a \<in> set (colaAviones t').
                 prioridad a = calcPriority a s
                 \<and> prioridad a = calcularPrioridad (estadoActual t') a)"
proof -
  from actualizarEstado_activo[OF assms, of t] obtain cola' where
    r: "actualizarEstado s t =
           Some ([Printf_actualizado s],
                 t\<lparr>estadoActual := s, procesar := True, detenerProceso := False,
                   colaAviones := cola'\<rparr>)"
       "mset cola' = image_mset (reprioriza s) (mset (colaAviones t))"
    by blast
  have eq: "reprioriza s = (\<lambda>a. a\<lparr>prioridad := calcPriority a s\<rparr>)"
    by (rule ext) (simp add: reprioriza_def calcularPrioridad_tabla)
  have "\<forall>a \<in> set cola'. prioridad a = calcPriority a s"
  proof
    fix a assume "a \<in> set cola'"
    then have "a \<in># image_mset (reprioriza s) (mset (colaAviones t))"
      using r(2) by (metis set_mset_mset)
    then obtain b where "a = reprioriza s b" by auto
    then show "prioridad a = calcPriority a s"
      by (simp add: eq calcPriority_def)
  qed
  then show ?thesis using r eq by (simp add: calcularPrioridad_tabla)
qed

text \<open>State 4 on the example tower: the aircraft of category A gets priority 2.\<close>

theorem C1_prioridades_tras_setState_witness:
  "\<exists>out t'. actualizarEstado 4 torre_ejemplo = Some (out, t')
      \<and> estadoActual t' = 4
      \<and> mset (colaAviones t') =
          {#avion_ejemplo 1 ''B'' 0, avion_ejemplo 2 ''A'' 2, avion_ejemplo 3 ''C'' 0#}
      \<and> (\<forall>a \<in> set (colaAviones t').
            prioridad a = calcPriority a 4
            \<and> prioridad a = calcularPrioridad (estadoActual t') a)"
  using C1_prioridades_tras_setState[of 4 torre_ejemplo]
  by (simp add: torre_ejemplo_def avion_ejemplo_def calcPriority_def)

text \<open>
  C2. In a state 1, 2 or 3, when a dispatcher pass takes off the queue an aircraft whose
  category is not the one of the state, the pass prints the exhaustion line, puts the
  aircraft back (the queue has the same length and the same aircraft as before) and sets
  \<^verbatim>\<open>detenerProceso\<close>. From then on any sequence of dispatcher passes and of state updates
  that keep the state (codes 7 and 8) takes no aircraft off the queue and leaves the tower
  as it is; every other state update clears the flag.
\<close>

theorem C2_agotamiento:
  assumes "1 \<le> estadoActual t" and "estadoActual t \<le> 3"
    and "procesar t" and "\<not> detenerProceso t"
    and "heap_Pop (colaAviones t) = Some (a, cola')"
    and "categoria a \<noteq> categoriaEstado (estadoActual t)"
  shows "\<exists>t'. procesarCola_iter t =
              Some ([Printf_agotada (categoriaEstado (estadoActual t))], Agotada a, t')
          \<and> length (colaAviones t') = length (colaAviones t)
          \<and> mset (colaAviones t') = mset (colaAviones t)
          \<and> detenerProceso t'
          \<and> (\<forall>acts. (\<forall>e. Estado e \<in> set acts \<longrightarrow> e = 7 \<or> e = 8) \<longrightarrow>
                (\<exists>evs. ejecutar acts t' = Some (evs, t')
                    \<and> sacados evs = [] \<and> despachados evs = []))
          \<and> (\<forall>e. e \<noteq> 7 \<and> e \<noteq> 8 \<longrightarrow>
                (\<exists>out t''. actualizarEstado e t' = Some (out, t'') \<and> \<not> detenerProceso t''))"
proof -
  let ?t' = "t\<lparr>colaAviones := heap_Push cola' a, detenerProceso := True\<rparr>"
  have nv: "\<not> esCategoriaValida (estadoActual t) a"
    using assms(1,2,6) by (simp add: esCategoriaValida_categoriaEstado)
  have it: "procesarCola_iter t =
              Some ([Printf_agotada (categoriaEstado (estadoActual t))], Agotada a, ?t')"
    using procesarCola_iter_saca[OF assms(4,3,5)] assms(1,2) nv by simp
  have ms: "mset (colaAviones ?t') = mset (colaAviones t)"
    using heap_Pop_mset[OF assms(5)] by (simp add: mset_heap_Push)
  have ln: "length (colaAviones ?t') = length (colaAviones t)"
    using arg_cong[OF ms, of size] by simp
  have det: "detenerProceso ?t'" by simp
  have quiet: "\<forall>acts. (\<forall>e. Estado e \<in> set acts \<longrightarrow> e = 7 \<or> e = 8) \<longrightarrow>
                (\<exists>evs. ejecutar acts ?t' = Some (evs, ?t')
                    \<and> sacados evs = [] \<and> despachados evs = [])"
    using detenido_no_despacha[OF det] by blast
  have resume: "\<forall>e. e \<noteq> 7 \<and> e \<noteq> 8 \<longrightarrow>
                (\<exists>out t''. actualizarEstado e ?t' = Some (out, t'') \<and> \<not> detenerProceso t'')"
    using actualizarEstado_reanuda by blast
  show ?thesis
    by (intro exI[of _ ?t'] conjI) (rule it ln ms det quiet resume)+
qed

text \<open>State 1 with only aircraft of categories B and C queued.\<close>

theorem C2_agotamiento_witness:
  "\<exists>t'. procesarCola_iter torre_estado_1 =
              Some ([Printf_agotada (categoriaEstado (estadoActual torre_estado_1))],
                    Agotada (avion_ejemplo 11 ''B'' 0), t')
          \<and> length (colaAviones t') = length (colaAviones torre_estado_1)
          \<and> mset (colaAviones t') = mset (colaAviones torre_estado_1)
          \<and> detenerProceso t'
          \<and> (\<forall>acts. (\<forall>e. Estado e \<in> set acts \<longrightarrow> e = 7 \<or> e = 8) \<longrightarrow>
                (\<exists>evs. ejecutar acts t' = Some (evs, t')
                    \<and> sacados evs = [] \<and> despachados evs = []))
          \<and> (\<forall>e. e \<noteq> 7 \<and> e \<noteq> 8 \<longrightarrow>
                (\<exists>out t''. actualizarEstado e t' = Some (out, t'') \<and> \<not> detenerProceso t''))"
proof -
  have h1: "1 \<le> estadoActual torre_estado_1" and h2: "estadoActual torre_estado_1 \<le> 3"
    and h3: "procesar torre_estado_1" and h4: "\<not> detenerProceso torre_estado_1"
    by (simp_all add: torre_estado_1_def)
  have h5: "heap_Pop (colaAviones torre_estado_1) =
              Some (avion_ejemplo 11 ''B'' 0, [avion_ejemplo 12 ''B'' 0, avion_ejemplo 21 ''C'' 0])"
    by code_simp
  have h6: "categoria (avion_ejemplo 11 ''B'' 0) \<noteq> categoriaEstado (estadoActual torre_estado_1)"
    by (simp add: torre_estado_1_def avion_ejemplo_def categoriaEstado_def)
  show ?thesis by (rule C2_agotamiento[OF h1 h2 h3 h4 h5 h6])
qed

text \<open>
  C3. In every state the runways reach from start-up, by any interleaving of goroutine
  launches, receives and sends, the number of goroutines holding a runway is between 0 and
  3, and together with the tokens left in the channel it makes the capacity, which is 3. A
  receive happens only when a token is there and moves exactly one runway to the holder, a
  send gives exactly one back; with no token left every receive blocks, and the send of a
  holder never blocks.
\<close>

theorem C3_pistas_acotadas:
  assumes "init_pistas = Some p0" and "ejecutar_pistas acts p0 = Some p"
  shows "0 \<le> ocupadas p \<and> ocupadas p \<le> 3
       \<and> pistasDisponibles p + ocupadas p = capacidad \<and> capacidad = 3
       \<and> (\<forall>i p'. paso_pista (Reserva i) p = Some p' \<longrightarrow>
             0 < pistasDisponibles p \<and> pistasDisponibles p' = pistasDisponibles p - 1
             \<and> ocupadas p' = ocupadas p + 1)
       \<and> (\<forall>i p'. paso_pista (Libera i) p = Some p' \<longrightarrow>
             pistasDisponibles p' = pistasDisponibles p + 1 \<and> ocupadas p' + 1 = ocupadas p)
       \<and> (pistasDisponibles p = 0 \<longrightarrow> (\<forall>i. paso_pista (Reserva i) p = None))
       \<and> (\<forall>i. i < length (hilos p) \<and> hilos p ! i = EnPista \<longrightarrow>
             paso_pista (Libera i) p \<noteq> None)"
proof -
  from assms(1) have p0: "p0 = pistas_inicial" by (simp add: init_pistas_eq)
  then have "pistasDisponibles p0 + ocupadas p0 = capacidad"
    by (simp add: pistas_inicial_def ocupadas_def capacidad_def)
  from ejecutar_pistas_suma[OF assms(2) this]
  have sum: "pistasDisponibles p + ocupadas p = capacidad" .
  have cap: "capacidad = 3" by (simp add: capacidad_def)
  have r: "\<forall>i p'. paso_pista (Reserva i) p = Some p' \<longrightarrow>
             0 < pistasDisponibles p \<and> pistasDisponibles p' = pistasDisponibles p - 1
             \<and> ocupadas p' = ocupadas p + 1"
    using paso_Reserva by blast
  have l: "\<forall>i p'. paso_pista (Libera i) p = Some p' \<longrightarrow>
             pistasDisponibles p' = pistasDisponibles p + 1 \<and> ocupadas p' + 1 = ocupadas p"
    using paso_Libera by blast
  have b: "pistasDisponibles p = 0 \<longrightarrow> (\<forall>i. paso_pista (Reserva i) p = None)"
    by (simp add: paso_pista_def recibir_def)
  have nb: "\<forall>i. i < length (hilos p) \<and> hilos p ! i = EnPista \<longrightarrow>
             paso_pista (Libera i) p \<noteq> None"
  proof (intro allI impI)
    fix i assume i: "i < length (hilos p) \<and> hilos p ! i = EnPista"
    then have "hilos p ! i \<in> set (hilos p)" "hilos p ! i = EnPista"
      using nth_mem[of i "hilos p"] by auto
    then have "hilos p ! i \<in> set (filter (\<lambda>h. h = EnPista) (hilos p))" by simp
    then have "0 < ocupadas p"
      unfolding ocupadas_def by (metis length_pos_if_in_set)
    with sum have "pistasDisponibles p < capacidad" by simp
    with i show "paso_pista (Libera i) p \<noteq> None"
      by (simp add: paso_pista_def enviar_def)
  qed
  from sum cap have le: "0 \<le> ocupadas p \<and> ocupadas p \<le> 3" by simp
  show ?thesis
    by (intro conjI) (rule le[THEN conjunct1] le[THEN conjunct2] sum cap r l b nb)+
qed

text \<open>
  Four dispatcher goroutines: three take a runway, one gives it back, the fourth takes it.
\<close>

theorem C3_pistas_acotadas_witness:
  "init_pistas = Some pistas_inicial
   \<and> ejecutar_pistas acciones_ejemplo pistas_inicial =
       Some \<lparr>pistasDisponibles = 0, hilos = [EnPista, Fuera, EnPista, EnPista]\<rparr>
   \<and> ocupadas \<lparr>pistasDisponibles = 0, hilos = [EnPista, Fuera, EnPista, EnPista]\<rparr> \<le> 3
   \<and> paso_pista (Reserva 1)
        \<lparr>pistasDisponibles = 0, hilos = [EnPista, Fuera, EnPista, EnPista]\<rparr> = None
   \<and> paso_pista (Libera 0)
        \<lparr>pistasDisponibles = 0, hilos = [EnPista, Fuera, EnPista, EnPista]\<rparr> \<noteq> None"
proof -
  let ?p = "\<lparr>pistasDisponibles = 0, hilos = [EnPista, Fuera, EnPista, EnPista]\<rparr>"
  have e: "ejecutar_pistas acciones_ejemplo pistas_inicial = Some ?p"
    by (simp add: acciones_ejemplo_def pistas_inicial_def paso_pista_def recibir_def
          enviar_def capacidad_def)
  from C3_pistas_acotadas[OF init_pistas_eq e] show ?thesis
    using init_pistas_eq e by simp
qed

text \<open>
  C4. For a state code 7 or 8, \<^verbatim>\<open>actualizarEstado\<close> returns the tower exactly as it was:
  the current state, \<^verbatim>\<open>procesar\<close>, \<^verbatim>\<open>detenerProceso\<close> and the queue with every priority
  are unchanged, and the only output is the line saying that the current state is kept.
\<close>

theorem C4_estados_7_8_sin_efecto:
  assumes "s = 7 \<or> s = 8"
  shows "actualizarEstado s t = Some ([Println_mantiene (estadoActual t)], t)"
  using assms by (rule actualizarEstado_retiene)

text \<open>Both codes on the example tower.\<close>

theorem C4_estados_7_8_sin_efecto_witness:
  "actualizarEstado 7 torre_ejemplo = Some ([Println_mantiene 0], torre_ejemplo)
   \<and> actualizarEstado 8 torre_ejemplo = Some ([Println_mantiene 0], torre_ejemplo)"
  using C4_estados_7_8_sin_efecto[of 7 torre_ejemplo]
        C4_estados_7_8_sin_efecto[of 8 torre_ejemplo]
  by (simp add: torre_ejemplo_def)

text \<open>
  C5. From start-up, after any sequence of state updates and dispatcher passes, take any
  number of consecutive dispatcher passes with no state update in between. None of them
  panics, and the aircraft they take off the queue come in non-increasing priority order.
  If the current state is 4, no aircraft of category A comes after an aircraft of another
  category, and once an aircraft of another category has been taken off, no aircraft of
  category A is left in the queue.
\<close>

theorem C5_orden_de_salida:
  "\<exists>evs0 t evs t'.
      ejecutar historia (init rnd) = Some (evs0, t)
    \<and> ejecutar (replicate n Iteracion) t = Some (evs, t')
    \<and> sorted_wrt (\<lambda>a b. prioridad a \<ge> prioridad b) (sacados evs)
    \<and> (estadoActual t = 4 \<longrightarrow>
          (\<forall>i j. i < j \<and> j < length (sacados evs) \<and> categoria (sacados evs ! j) = ''A''
               \<longrightarrow> categoria (sacados evs ! i) = ''A'')
        \<and> ((\<exists>b \<in> set (sacados evs). categoria b \<noteq> ''A'')
               \<longrightarrow> (\<forall>a \<in> set (colaAviones t'). categoria a \<noteq> ''A'')))"
proof -
  from ejecutar_coherente[OF init_coherente, of historia rnd] obtain evs0 t where
    h: "ejecutar historia (init rnd) = Some (evs0, t)" "coherente t" by blast
  then have hp: "is_heap (colaAviones t)" by (simp add: coherente_def)
  from iteraciones[OF hp, of n] obtain evs t' where
    r: "ejecutar (replicate n Iteracion) t = Some (evs, t')"
       "set (colaAviones t') \<subseteq> set (colaAviones t)"
       "set (sacados evs) \<subseteq> set (colaAviones t)"
       "sorted_wrt (\<lambda>a b. prioridad b \<le> prioridad a) (sacados evs)"
       "\<forall>a \<in> set (sacados evs). \<forall>b \<in> set (colaAviones t'). prioridad b \<le> prioridad a"
    by blast
  have four: "(\<forall>i j. i < j \<and> j < length (sacados evs) \<and> categoria (sacados evs ! j) = ''A''
               \<longrightarrow> categoria (sacados evs ! i) = ''A'')
        \<and> ((\<exists>b \<in> set (sacados evs). categoria b \<noteq> ''A'')
               \<longrightarrow> (\<forall>a \<in> set (colaAviones t'). categoria a \<noteq> ''A''))"
    if e4: "estadoActual t = 4"
  proof -
    have pr: "prioridad a = (if categoria a = ''A'' then 2 else 0)"
      if "a \<in> set (colaAviones t)" for a
      using h(2) e4 that by (auto simp: coherente_def calcularPrioridad_def)
    have p1: "categoria (sacados evs ! i) = ''A''"
      if "i < j" "j < length (sacados evs)" "categoria (sacados evs ! j) = ''A''" for i j
    proof -
      have "sacados evs ! j \<in> set (colaAviones t)" "sacados evs ! i \<in> set (colaAviones t)"
        using that(1,2) r(3) by auto
      then have "prioridad (sacados evs ! j) = 2"
        and pi: "prioridad (sacados evs ! i) = (if categoria (sacados evs ! i) = ''A'' then 2 else 0)"
        using pr that(3) by auto
      moreover have "prioridad (sacados evs ! j) \<le> prioridad (sacados evs ! i)"
        using sorted_wrt_nth_less[OF r(4) that(1,2)] .
      ultimately show ?thesis by (auto split: if_splits)
    qed
    have p2: "categoria a \<noteq> ''A''"
      if "b \<in> set (sacados evs)" "categoria b \<noteq> ''A''" "a \<in> set (colaAviones t')" for a b
    proof -
      have "prioridad b = 0" using pr[of b] that(1,2) r(3) by auto
      moreover have "prioridad a \<le> prioridad b" using r(5) that(1,3) by blast
      moreover have "prioridad a = (if categoria a = ''A'' then 2 else 0)"
        using pr[of a] that(3) r(2) by auto
      ultimately show ?thesis by (auto split: if_splits)
    qed
    show ?thesis using p1 p2 by blast
  qed
  show ?thesis
    using h(1) r(1) r(4) four by (intro exI conjI impI; (assumption | blast))
qed

text \<open>
  State 4 right after start-up, then twelve passes: the ten aircraft of category A leave
  first.
\<close>

theorem C5_orden_de_salida_witness:
  "\<exists>evs0 t evs t'.
      ejecutar [Estado 4] (init (\<lambda>_. 0)) = Some (evs0, t)
    \<and> ejecutar (replicate 12 Iteracion) t = Some (evs, t')
    \<and> estadoActual t = 4
    \<and> map categoria (sacados evs) =
        [''A'', ''A'', ''A'', ''A'', ''A'', ''A'', ''A'', ''A'', ''A'', ''A'', ''B'', ''C'']
    \<and> sorted_wrt (\<lambda>a b. prioridad a \<ge> prioridad b) (sacados evs)
    \<and> (\<forall>i j. i < j \<and> j < length (sacados evs) \<and> categoria (sacados evs ! j) = ''A''
               \<longrightarrow> categoria (sacados evs ! i) = ''A'')
    \<and> (\<forall>a \<in> set (colaAviones t'). categoria a \<noteq> ''A'')"
proof -
  from C5_orden_de_salida[of "[Estado 4]" "\<lambda>_. 0" 12] obtain evs0 t evs t' where
    a: "ejecutar [Estado 4] (init (\<lambda>_. 0)) = Some (evs0, t)" and
    b: "ejecutar (replicate 12 Iteracion) t = Some (evs, t')" and
    c: "sorted_wrt (\<lambda>a b. prioridad a \<ge> prioridad b) (sacados evs)" and
    d: "estadoActual t = 4 \<longrightarrow>
          (\<forall>i j. i < j \<and> j < length (sacados evs) \<and> categoria (sacados evs ! j) = ''A''
               \<longrightarrow> categoria (sacados evs ! i) = ''A'')
        \<and> ((\<exists>b \<in> set (sacados evs). categoria b \<noteq> ''A'')
               \<longrightarrow> (\<forall>a \<in> set (colaAviones t'). categoria a \<noteq> ''A''))"
    by blast
  from actualizarEstado_activo[of 4 "init (\<lambda>_. 0)"] a have e4: "estadoActual t = 4"
    by auto
  have "map_option (\<lambda>(evs, t'). map categoria (sacados evs))
          (Option.bind (Some (evs0, t)) (\<lambda>(evs0, t). ejecutar (replicate 12 Iteracion) t))
        = Some [''A'', ''A'', ''A'', ''A'', ''A'', ''A'', ''A'', ''A'', ''A'', ''A'', ''B'', ''C'']"
    using ejemplo_estado_4 unfolding a .
  then have "map_option (\<lambda>(evs, t'). map categoria (sacados evs))
          (ejecutar (replicate 12 Iteracion) t)
        = Some [''A'', ''A'', ''A'', ''A'', ''A'', ''A'', ''A'', ''A'', ''A'', ''A'', ''B'', ''C'']"
    by (simp only: Option.bind.simps prod.case)
  then have cats: "map categoria (sacados evs) =
        [''A'', ''A'', ''A'', ''A'', ''A'', ''A'', ''A'', ''A'', ''A'', ''A'', ''B'', ''C'']"
    unfolding b by (simp only: option.map prod.case option.inject)
  have len: "length (sacados evs) = 12"
    using arg_cong[OF cats, of length] by simp
  have "map categoria (sacados evs) ! 10 = ''B''"
    unfolding cats by simp
  then have "categoria (sacados evs ! 10) = ''B''"
    using len by simp
  moreover have "sacados evs ! 10 \<in> set (sacados evs)"
    using len by simp
  ultimately have "\<exists>b \<in> set (sacados evs). categoria b \<noteq> ''A''"
    by (intro bexI[of _ "sacados evs ! 10"]) simp_all
  with d e4 have d2: "\<forall>a \<in> set (colaAviones t'). categoria a \<noteq> ''A''" by blast
  from d e4 have d1: "\<forall>i j. i < j \<and> j < length (sacados evs) \<and> categoria (sacados evs ! j) = ''A''
               \<longrightarrow> categoria (sacados evs ! i) = ''A''" by blast
  show ?thesis
    by (intro exI[of _ evs0] exI[of _ t] exI[of _ evs] exI[of _ t'] conjI)
       (rule a b c e4 cats d1 d2)+
qed

text \<open>
  C6. For every state code, calling \<^verbatim>\<open>actualizarEstado\<close> a second time with the same code
  succeeds and leaves the queue with the same aircraft and the same priorities as after
  the first call.
\<close>

theorem C6_setState_idempotente:
  "\<exists>o1 t1 o2 t2. actualizarEstado s t = Some (o1, t1)
      \<and> actualizarEstado s t1 = Some (o2, t2)
      \<and> mset (colaAviones t2) = mset (colaAviones t1)"
proof -
  consider "s = 7 \<or> s = 8" | "s < 1 \<or> 8 < s" | "1 \<le> s \<and> s \<le> 6"
    using actualizarEstado_casos[of s] by blast
  then show ?thesis
  proof cases
    case 1
    then show ?thesis by (simp add: actualizarEstado_retiene)
  next
    case 2
    then show ?thesis by (simp add: actualizarEstado_inactivo)
  next
    case 3
    then have a: "1 \<le> s" "s \<le> 6" by auto
    from actualizarEstado_activo[OF a, of t] obtain c1 where
      r1: "actualizarEstado s t =
             Some ([Printf_actualizado s],
                   t\<lparr>estadoActual := s, procesar := True, detenerProceso := False,
                     colaAviones := c1\<rparr>)"
          "mset c1 = image_mset (reprioriza s) (mset (colaAviones t))"
      by blast
    let ?t1 = "t\<lparr>estadoActual := s, procesar := True, detenerProceso := False,
                     colaAviones := c1\<rparr>"
    from actualizarEstado_activo[OF a, of ?t1] obtain c2 where
      r2: "actualizarEstado s ?t1 =
             Some ([Printf_actualizado s],
                   ?t1\<lparr>estadoActual := s, procesar := True, detenerProceso := False,
                     colaAviones := c2\<rparr>)"
          "mset c2 = image_mset (reprioriza s) (mset (colaAviones ?t1))"
      by blast
    have idem: "reprioriza s \<circ> reprioriza s = reprioriza s"
      by (rule ext) (simp add: reprioriza_def calcularPrioridad_def)
    have "mset c2 = mset c1"
      using r1(2) r2(2) by (simp add: image_mset.compositionality idem)
    then show ?thesis using r1(1) r2(1) by simp
  qed
qed

text \<open>
  C7. For a code below 0 or above 9, \<^verbatim>\<open>actualizarEstado\<close> stores the code as the current
  state (and switches processing off, leaving the queue as it is); under that state the
  priority rule gives 0 for every aircraft and the eligibility rule accepts every aircraft.
\<close>

theorem C7_codigo_no_reconocido:
  assumes "code < 0 \<or> 9 < code"
  shows "actualizarEstado code t =
           Some ([Printf_actualizado code],
                 t\<lparr>estadoActual := code, procesar := False, detenerProceso := False\<rparr>)
         \<and> (\<forall>a. calcularPrioridad code a = 0)
         \<and> (\<forall>a. esCategoriaValida code a)"
proof -
  from assms have "code < 1 \<or> 8 < code" by arith
  then have "actualizarEstado code t =
           Some ([Printf_actualizado code],
                 t\<lparr>estadoActual := code, procesar := False, detenerProceso := False\<rparr>)"
    by (rule actualizarEstado_inactivo)
  moreover have "\<forall>a. calcularPrioridad code a = 0"
    using assms by (auto simp: calcularPrioridad_def)
  moreover have "\<forall>a. esCategoriaValida code a"
    using assms by (auto simp: esCategoriaValida_def)
  ultimately show ?thesis by blast
qed

text \<open>The codes 42 and -1 on the example tower.\<close>

theorem C7_codigo_no_reconocido_witness:
  "actualizarEstado 42 torre_ejemplo =
     Some ([Printf_actualizado 42], torre_ejemplo\<lparr>estadoActual := 42\<rparr>)
   \<and> calcularPrioridad 42 (avion_ejemplo 2 ''A'' 0) = 0
   \<and> esCategoriaValida 42 (avion_ejemplo 2 ''A'' 0)
   \<and> calcularPrioridad (- 1) (avion_ejemplo 2 ''A'' 0) = 0"
  using C7_codigo_no_reconocido[of 42 torre_ejemplo]
        C7_codigo_no_reconocido[of "- 1" torre_ejemplo]
  by (simp add: torre_ejemplo_def)

text \<open>
  C8 (amended). For every non-empty read, with \<open>TrimSpace raw\<close> the trimmed text: if the
  trimmed text parses as an integer, \<^verbatim>\<open>actualizarEstado\<close> is called with it and the output
  is its output followed by the description of the code, which is one line when the code
  is in the table 0, 1, 2, 3, 4, 5, 6, 9 and nothing otherwise; if it does not parse, the
  trimmed text is printed as free text and nothing fails.
\<close>

theorem C8_linea_entrante:
  assumes "raw \<noteq> []"
  shows "(\<forall>e. Atoi (TrimSpace raw) = Some e \<longrightarrow>
           (\<exists>out t'. actualizarEstado e (t\<lparr>msg := TrimSpace raw\<rparr>) = Some (out, t')
              \<and> leerMensajes_lectura raw t = Some (out @ descripcionEstado e, t'))
           \<and> (e \<in> tabla_descripciones \<longrightarrow>
                 (\<exists>d. descripciones e = Some d \<and> descripcionEstado e = [Printf_descripcion d]))
           \<and> (e \<notin> tabla_descripciones \<longrightarrow> descripcionEstado e = []))
       \<and> (Atoi (TrimSpace raw) = None \<longrightarrow>
             leerMensajes_lectura raw t =
               Some ([Println_msg (TrimSpace raw)], t\<lparr>msg := TrimSpace raw\<rparr>))"
  using leerMensajes_lectura_numero[OF assms] leerMensajes_lectura_texto[OF assms]
        descripcionEstado_tabla descripcionEstado_fuera
  by blast

text \<open>The reads \<open>9\<close>, \<open>7\<close> and \<open>hola mundo\<close>, each with its newline.\<close>

theorem C8_linea_entrante_witness:
  "leerMensajes_lectura (''9'' @ [CHR 0x0A]) torre_ejemplo =
     Some ([Printf_actualizado 9, Printf_descripcion ''Aeropuerto cerrado temporalmente''],
           torre_ejemplo\<lparr>msg := ''9'', estadoActual := 9\<rparr>)
   \<and> leerMensajes_lectura (''7'' @ [CHR 0x0A]) torre_ejemplo =
     Some ([Println_mantiene 0], torre_ejemplo\<lparr>msg := ''7''\<rparr>)
   \<and> leerMensajes_lectura (''hola mundo'' @ [CHR 0x0A]) torre_ejemplo =
     Some ([Println_msg ''hola mundo''], torre_ejemplo\<lparr>msg := ''hola mundo''\<rparr>)"
proof (intro conjI)
  have t9: "TrimSpace (''9'' @ [CHR 0x0A]) = ''9''" by code_simp
  have a9: "Atoi ''9'' = Some 9" by code_simp
  have d9: "descripcionEstado 9 = [Printf_descripcion ''Aeropuerto cerrado temporalmente'']"
    by (simp add: descripcionEstado_def descripciones_def)
  have u9: "actualizarEstado 9 (torre_ejemplo\<lparr>msg := ''9''\<rparr>) =
      Some ([Printf_actualizado 9], torre_ejemplo\<lparr>msg := ''9'', estadoActual := 9\<rparr>)"
    by (simp add: actualizarEstado_inactivo torre_ejemplo_def)
  from C8_linea_entrante[of "''9'' @ [CHR 0x0A]" torre_ejemplo]
  show "leerMensajes_lectura (''9'' @ [CHR 0x0A]) torre_ejemplo =
     Some ([Printf_actualizado 9, Printf_descripcion ''Aeropuerto cerrado temporalmente''],
           torre_ejemplo\<lparr>msg := ''9'', estadoActual := 9\<rparr>)"
    unfolding t9 using a9 d9 u9 by auto
next
  have t7: "TrimSpace (''7'' @ [CHR 0x0A]) = ''7''" by code_simp
  have a7: "Atoi ''7'' = Some 7" by code_simp
  have d7: "descripcionEstado 7 = []"
    by (simp add: descripcionEstado_def descripciones_def)
  have u7: "actualizarEstado 7 (torre_ejemplo\<lparr>msg := ''7''\<rparr>) =
      Some ([Println_mantiene 0], torre_ejemplo\<lparr>msg := ''7''\<rparr>)"
    by (simp add: actualizarEstado_retiene torre_ejemplo_def)
  from C8_linea_entrante[of "''7'' @ [CHR 0x0A]" torre_ejemplo]
  show "leerMensajes_lectura (''7'' @ [CHR 0x0A]) torre_ejemplo =
     Some ([Println_mantiene 0], torre_ejemplo\<lparr>msg := ''7''\<rparr>)"
    unfolding t7 using a7 d7 u7 by auto
next
  have th: "TrimSpace (''hola mundo'' @ [CHR 0x0A]) = ''hola mundo''" by code_simp
  have ah: "Atoi ''hola mundo'' = None" by code_simp
  from C8_linea_entrante[of "''hola mundo'' @ [CHR 0x0A]" torre_ejemplo]
  show "leerMensajes_lectura (''hola mundo'' @ [CHR 0x0A]) torre_ejemplo =
     Some ([Println_msg ''hola mundo''], torre_ejemplo\<lparr>msg := ''hola mundo''\<rparr>)"
    unfolding th using ah by auto
qed

text \<open>
  The line is not always printed as it came: the bytes \<open>'' hola''\<close> do not parse as an
  integer, and what is printed is \<open>''hola''\<close>, without the leading blank.
\<close>

theorem C8_linea_contraejemplo:
  "\<not> (Atoi '' hola'' = None \<longrightarrow>
        map_option fst (leerMensajes_lectura '' hola'' torre_ejemplo)
          = Some [Println_msg '' hola''])"
proof -
  have a: "Atoi '' hola'' = None" by code_simp
  have t: "TrimSpace '' hola'' = ''hola''" by code_simp
  have b: "Atoi ''hola'' = None" by code_simp
  have "leerMensajes_lectura '' hola'' torre_ejemplo
          = Some ([Println_msg ''hola''], torre_ejemplo\<lparr>msg := ''hola''\<rparr>)"
    using leerMensajes_lectura_texto[of "'' hola''" torre_ejemplo] t b by simp
  with a show ?thesis by simp
qed

text \<open>
  C9 (amended). The number of seconds \<^verbatim>\<open>usarPista\<close> sleeps lies in the half-open range
  from 0 to 4, and the value 3 is taken.
\<close>

theorem C9_duracion_acotada:
  "0 \<le> usarPista_duracion r \<and> usarPista_duracion r < 4
   \<and> usarPista_duracion (4 * r + 3) = 3"
  by (simp add: usarPista_duracion_def rand_Intn_def)

text \<open>
  The duration is not always below 3: the raw draw 3 gives a sleep of 3 seconds.
\<close>

theorem C9_duracion_contraejemplo:
  "\<not> (0 \<le> usarPista_duracion 3 \<and> usarPista_duracion 3 < 3)"
  by (simp add: usarPista_duracion_def rand_Intn_def)

text \<open>
  C10. White space around the text is removed before the integer test: when \<open>s\<close> parses
  as the integer \<open>e\<close>, a read of \<open>s\<close> with any ASCII white space (blanks, tabs,
  newlines, carriage returns) before and after it is trimmed to \<open>s\<close> and handled exactly
  as the read \<open>s\<close> alone, as state code \<open>e\<close>.
\<close>

theorem C10_recorte_antes_de_Atoi:
  assumes "\<forall>c \<in> set ws1. asciiSpace c" and "\<forall>c \<in> set ws2. asciiSpace c"
    and "Atoi s = Some e"
  shows "TrimSpace (ws1 @ s @ ws2) = s
       \<and> (\<exists>out t'. actualizarEstado e (t\<lparr>msg := s\<rparr>) = Some (out, t')
             \<and> leerMensajes_lectura (ws1 @ s @ ws2) t = Some (out @ descripcionEstado e, t'))
       \<and> leerMensajes_lectura (ws1 @ s @ ws2) t = leerMensajes_lectura s t"
proof -
  from Atoi_extremos[OF assms(3)] have
    x: "s \<noteq> []" "\<not> inicioDeEspacio (hd s)" "\<not> finDeEspacio (last s)" by auto
  have tr: "TrimSpace (ws1 @ s @ ws2) = s"
    using assms(1,2) x by (rule TrimSpace_recorta)
  have tr0: "TrimSpace s = s"
    using TrimSpace_recorta[of "[]" "[]" s] x by simp
  have ne: "ws1 @ s @ ws2 \<noteq> []" using x(1) by simp
  from leerMensajes_lectura_numero[OF ne, of e t] assms(3) tr
  have a: "\<exists>out t'. actualizarEstado e (t\<lparr>msg := s\<rparr>) = Some (out, t')
             \<and> leerMensajes_lectura (ws1 @ s @ ws2) t = Some (out @ descripcionEstado e, t')"
    by simp
  from leerMensajes_lectura_numero[OF x(1), of e t] assms(3) tr0
  have b: "\<exists>out t'. actualizarEstado e (t\<lparr>msg := s\<rparr>) = Some (out, t')
             \<and> leerMensajes_lectura s t = Some (out @ descripcionEstado e, t')"
    by simp
  from a b have "leerMensajes_lectura (ws1 @ s @ ws2) t = leerMensajes_lectura s t"
    by auto
  with tr a show ?thesis by blast
qed

text \<open>The reads \<open>'' 5 ''\<close> and \<open>5\<close> with a newline are state code 5.\<close>

theorem C10_recorte_antes_de_Atoi_witness:
  "TrimSpace '' 5 '' = ''5'' \<and> TrimSpace (''5'' @ [CHR 0x0A]) = ''5''
   \<and> leerMensajes_lectura '' 5 '' torre_ejemplo = leerMensajes_lectura ''5'' torre_ejemplo
   \<and> leerMensajes_lectura (''5'' @ [CHR 0x0A]) torre_ejemplo
        = leerMensajes_lectura ''5'' torre_ejemplo
   \<and> (\<exists>out t'. leerMensajes_lectura '' 5 '' torre_ejemplo
                   = Some (out @ [Printf_descripcion
                        (''Prioridad categor'' @ [CHR 0xC3, CHR 0xAD] @ ''a B'')], t')
         \<and> estadoActual t' = 5)"
proof -
  have sp: "\<forall>c \<in> set '' ''. asciiSpace c" and nl: "\<forall>c \<in> set [CHR 0x0A]. asciiSpace c"
    and em: "\<forall>c \<in> set ''''. asciiSpace c"
    by (simp_all add: asciiSpace_def)
  have a5: "Atoi ''5'' = Some 5" by code_simp
  have d5: "descripcionEstado 5 =
      [Printf_descripcion (''Prioridad categor'' @ [CHR 0xC3, CHR 0xAD] @ ''a B'')]"
    by (simp add: descripcionEstado_def descripciones_def)
  note w1 = C10_recorte_antes_de_Atoi[OF sp sp a5, of torre_ejemplo]
  note w2 = C10_recorte_antes_de_Atoi[OF em nl a5, of torre_ejemplo]
  from w1 obtain out t' where
    o: "actualizarEstado 5 (torre_ejemplo\<lparr>msg := ''5''\<rparr>) = Some (out, t')"
       "leerMensajes_lectura ('' '' @ ''5'' @ '' '') torre_ejemplo
          = Some (out @ descripcionEstado 5, t')"
    by blast
  from actualizarEstado_activo[of 5 "torre_ejemplo\<lparr>msg := ''5''\<rparr>"] o(1)
  have "estadoActual t' = 5" by auto
  with o(2) d5 have
    "\<exists>out t'. leerMensajes_lectura '' 5 '' torre_ejemplo
                   = Some (out @ [Printf_descripcion
                        (''Prioridad categor'' @ [CHR 0xC3, CHR 0xAD] @ ''a B'')], t')
         \<and> estadoActual t' = 5"
    by auto
  with w1 w2 show ?thesis by simp
qed

end
